theory Spec2Isabelle
  imports Main "HOL-Library.Word"
begin

section \<open>Python values and exceptions\<close>

text \<open>
  The codec of \<^verbatim>\<open>ape_starknet/ecosystems.py\<close> works on dynamically typed values.
  The classes its \<^verbatim>\<open>isinstance\<close> tests tell apart are modelled by one datatype:
  integers, strings, \<^verbatim>\<open>HexBytes\<close> blobs, lists, tuples, dictionaries (as association
  lists in insertion order) and \<^verbatim>\<open>None\<close> for any other object.
\<close>

datatype pyval =
    PInt int
  | PStr string
  | PHexBytes "8 word list"
  | PList "pyval list"
  | PTuple "pyval list"
  | PDict "(string \<times> pyval) list"
  | PNone

text \<open>
  Exceptions are values. \<open>StopIteration\<close> is what the built-in \<^verbatim>\<open>next\<close> raises on an
  exhausted iterator, \<open>RuntimeError\<close> is what a generator turns it into, and
  \<open>CustomError\<close> stands for an exception class named by a string.
\<close>

datatype py_error =
    StopIteration
  | RuntimeError
  | ValueError
  | TypeError
  | IndexError
  | CustomError string

text \<open>Truth value of an object, as \<^verbatim>\<open>if target and proxy_type\<close> tests it.\<close>

fun truthy :: "pyval \<Rightarrow> bool" where
  "truthy (PInt n) = (n \<noteq> 0)"
| "truthy (PStr s) = (s \<noteq> [])"
| "truthy (PHexBytes bs) = (bs \<noteq> [])"
| "truthy (PList xs) = (xs \<noteq> [])"
| "truthy (PTuple xs) = (xs \<noteq> [])"
| "truthy (PDict kvs) = (kvs \<noteq> [])"
| "truthy PNone = False"

section \<open>Library functions the coercer calls\<close>

text \<open>
  \<^verbatim>\<open>eth_utils.is_0x_prefixed(value)\<close> is \<^verbatim>\<open>value.startswith(("0x", "0X"))\<close>.
\<close>

definition is_0x_prefixed :: "string \<Rightarrow> bool" where
  "is_0x_prefixed s = (take 2 s = ''0x'' \<or> take 2 s = ''0X'')"

text \<open>Value of a base-16 digit, either case.\<close>

definition hex_digit_value :: "char \<Rightarrow> int option" where
  "hex_digit_value c =
     (let n = (of_char c :: nat) in
      if 48 \<le> n \<and> n \<le> 57 then Some (int n - 48)
      else if 97 \<le> n \<and> n \<le> 102 then Some (int n - 87)
      else if 65 \<le> n \<and> n \<le> 70 then Some (int n - 55)
      else None)"

text \<open>
  White space as Python's \<^verbatim>\<open>int\<close> strips it from a string: the code points
  9 to 13 and 28 to 32.
\<close>

definition py_isspace :: "char \<Rightarrow> bool" where
  "py_isspace c = (let n = (of_char c :: nat) in (9 \<le> n \<and> n \<le> 13) \<or> (28 \<le> n \<and> n \<le> 32))"

text \<open>
  The digit scan of Python's \<^verbatim>\<open>int(s, 16)\<close>: digits, with single underscores
  between them; the flag says that the previous character was an underscore. The
  scan stops at the first character that is neither, and returns the value read
  and the rest of the string; a doubled or a trailing underscore is an error.
\<close>

fun scan_hex_digits :: "string \<Rightarrow> bool \<Rightarrow> int \<Rightarrow> (int \<times> string) option" where
  "scan_hex_digits [] prev_us acc = (if prev_us then None else Some (acc, []))"
| "scan_hex_digits (c # cs) prev_us acc =
     (if c = CHR ''_'' then (if prev_us then None else scan_hex_digits cs True acc)
      else (case hex_digit_value c of
              Some d \<Rightarrow> scan_hex_digits cs False (acc * 16 + d)
            | None \<Rightarrow> (if prev_us then None else Some (acc, c # cs))))"

text \<open>
  Python's \<^verbatim>\<open>int(s, 16)\<close> on a string: white space around the literal, an optional
  sign, an optional \<^verbatim>\<open>0x\<close> prefix which one underscore may follow, then at least one
  digit. Anything else raises \<^verbatim>\<open>ValueError\<close>.
\<close>

definition py_int_base16 :: "string \<Rightarrow> py_error + int" where
  "py_int_base16 s =
     (let s1 = dropWhile py_isspace s;
          (sign, s2) = (case s1 of
                          c # cs \<Rightarrow> if c = CHR ''+'' then (1, cs)
                                    else if c = CHR ''-'' then (- 1, cs) else (1, s1)
                        | [] \<Rightarrow> (1, s1));
          s3 = (if is_0x_prefixed s2
                then (case drop 2 s2 of
                        c # cs \<Rightarrow> if c = CHR ''_'' then cs else c # cs
                      | [] \<Rightarrow> [])
                else s2)
      in case s3 of
           [] \<Rightarrow> Inl ValueError
         | c # cs \<Rightarrow>
             (if hex_digit_value c = None then Inl ValueError
              else (case scan_hex_digits s3 False 0 of
                      None \<Rightarrow> Inl ValueError
                    | Some (n, rest) \<Rightarrow>
                        if dropWhile py_isspace rest = [] then Inr (sign * n)
                        else Inl ValueError)))"

text \<open>
  \<^verbatim>\<open>HexBytes.hex()\<close>: the prefix \<^verbatim>\<open>0x\<close> and two lower-case digits for each byte.
\<close>

definition hex_char :: "nat \<Rightarrow> char" where
  "hex_char d = (if d < 10 then char_of (48 + d) else char_of (87 + d))"

definition byte_hex :: "8 word \<Rightarrow> string" where
  "byte_hex b = [hex_char (unat b div 16), hex_char (unat b mod 16)]"

definition hexbytes_hex :: "8 word list \<Rightarrow> string" where
  "hexbytes_hex bs = ''0x'' @ concat (map byte_hex bs)"

section \<open>The primitive coercer\<close>

text \<open>
  \<^verbatim>\<open>Starknet.encode_primitive_value\<close>: an int is returned as it is, a string with
  the \<^verbatim>\<open>0x\<close> prefix goes through \<^verbatim>\<open>int(value, 16)\<close>, a \<^verbatim>\<open>HexBytes\<close> through
  \<^verbatim>\<open>int(value.hex(), 16)\<close>, and every other value is returned as it is.
\<close>

fun encode_primitive_value :: "pyval \<Rightarrow> py_error + pyval" where
  "encode_primitive_value (PInt n) = Inr (PInt n)"
| "encode_primitive_value (PStr s) =
     (if is_0x_prefixed s
      then (case py_int_base16 s of Inl e \<Rightarrow> Inl e | Inr n \<Rightarrow> Inr (PInt n))
      else Inr (PStr s))"
| "encode_primitive_value (PHexBytes bs) =
     (case py_int_base16 (hexbytes_hex bs) of Inl e \<Rightarrow> Inl e | Inr n \<Rightarrow> Inr (PInt n))"
| "encode_primitive_value v = Inr v"

section \<open>Signatures\<close>

text \<open>
  An \<^verbatim>\<open>ABIType\<close> entry of a method or an event: an optional name and a type string.
  A \<^verbatim>\<open>MethodABI\<close> has a name, inputs and outputs.
\<close>

record abi_type =
  name :: "string option"
  type :: string

record method_abi =
  method_name :: string
  inputs :: "abi_type list"
  outputs :: "abi_type list"

text \<open>\<^verbatim>\<open>str.endswith\<close>.\<close>

definition endswith :: "string \<Rightarrow> string \<Rightarrow> bool" where
  "endswith s suffix =
     (length suffix \<le> length s \<and> drop (length s - length suffix) s = suffix)"

section \<open>The value flattener\<close>

text \<open>
  \<^verbatim>\<open>_pre_encode_value\<close>, \<^verbatim>\<open>_pre_encode_array\<close> and \<^verbatim>\<open>_pre_encode_struct\<close>. The first
  dispatches on the class of the value; the loops over the items of a sequence and
  of a dictionary stop at the first item that raises.
\<close>

fun pre_encode_value :: "pyval \<Rightarrow> py_error + pyval"
  and pre_encode_items :: "pyval list \<Rightarrow> py_error + pyval list"
  and pre_encode_struct_items :: "(string \<times> pyval) list \<Rightarrow> py_error + (string \<times> pyval) list"
where
  "pre_encode_value (PDict kvs) =
     (case pre_encode_struct_items kvs of Inl e \<Rightarrow> Inl e | Inr r \<Rightarrow> Inr (PDict r))"
| "pre_encode_value (PList xs) =
     (case pre_encode_items xs of Inl e \<Rightarrow> Inl e | Inr r \<Rightarrow> Inr (PList r))"
| "pre_encode_value (PTuple xs) =
     (case pre_encode_items xs of Inl e \<Rightarrow> Inl e | Inr r \<Rightarrow> Inr (PList r))"
| "pre_encode_value (PInt n) = encode_primitive_value (PInt n)"
| "pre_encode_value (PStr s) = encode_primitive_value (PStr s)"
| "pre_encode_value (PHexBytes bs) = encode_primitive_value (PHexBytes bs)"
| "pre_encode_value PNone = encode_primitive_value PNone"
| "pre_encode_items [] = Inr []"
| "pre_encode_items (item # rest) =
     (case pre_encode_value item of
        Inl e \<Rightarrow> Inl e
      | Inr v \<Rightarrow> (case pre_encode_items rest of Inl e \<Rightarrow> Inl e | Inr vs \<Rightarrow> Inr (v # vs)))"
| "pre_encode_struct_items [] = Inr []"
| "pre_encode_struct_items ((key, val) # rest) =
     (case pre_encode_value val of
        Inl e \<Rightarrow> Inl e
      | Inr v \<Rightarrow> (case pre_encode_struct_items rest of
                   Inl e \<Rightarrow> Inl e
                 | Inr vs \<Rightarrow> Inr ((key, v) # vs)))"

text \<open>
  \<^verbatim>\<open>_pre_encode_array\<close>: a value that is neither a list nor a tuple is wrapped in
  a one-item list first.
\<close>

fun pre_encode_array :: "pyval \<Rightarrow> py_error + pyval" where
  "pre_encode_array (PList xs) =
     (case pre_encode_items xs of Inl e \<Rightarrow> Inl e | Inr r \<Rightarrow> Inr (PList r))"
| "pre_encode_array (PTuple xs) =
     (case pre_encode_items xs of Inl e \<Rightarrow> Inl e | Inr r \<Rightarrow> Inr (PList r))"
| "pre_encode_array v =
     (case pre_encode_items [v] of Inl e \<Rightarrow> Inl e | Inr r \<Rightarrow> Inr (PList r))"

section \<open>The calldata encoder\<close>

text \<open>Indexing a Python sequence with a non-negative index.\<close>

definition list_get :: "'a list \<Rightarrow> nat \<Rightarrow> py_error + 'a" where
  "list_get xs i = (if i < length xs then Inr (xs ! i) else Inl IndexError)"

text \<open>\<^verbatim>\<open>isinstance(pre_encoded_arg, int)\<close>.\<close>

fun is_int :: "pyval \<Rightarrow> bool" where
  "is_int (PInt n) = True"
| "is_int v = False"

text \<open>
  The condition of the \<^verbatim>\<open>elif\<close> branch of the loop of \<^verbatim>\<open>encode_calldata\<close>, with
  Python's left-to-right \<^verbatim>\<open>and\<close>: the input has a name, the name ends with
  \<^verbatim>\<open>_len\<close>, \<^verbatim>\<open>index < last_index\<close>, and the type of \<^verbatim>\<open>method_abi.inputs[index + 1]\<close>
  ends with a star.
\<close>

definition is_arr_len :: "abi_type list \<Rightarrow> int \<Rightarrow> nat \<Rightarrow> abi_type \<Rightarrow> bool" where
  "is_arr_len all_inputs last_index index input_type =
     (case name input_type of
        None \<Rightarrow> False
      | Some nm \<Rightarrow>
          if endswith nm ''_len'' then
            (if int index < last_index
             then endswith (type (all_inputs ! (index + 1))) ''*''
             else False)
          else False)"

text \<open>
  The loop of \<^verbatim>\<open>encode_calldata\<close> over \<^verbatim>\<open>zip(call_args, method_abi.inputs)\<close>. Its
  state is \<^verbatim>\<open>index\<close>, \<^verbatim>\<open>did_process_array_during_arr_len\<close> and \<^verbatim>\<open>pre_encoded_args\<close>.
  The \<^verbatim>\<open>continue\<close> of the first branch goes to the next pair without passing
  \<^verbatim>\<open>index += 1\<close>.
\<close>

fun pre_encode_loop ::
  "pyval list \<Rightarrow> abi_type list \<Rightarrow> int \<Rightarrow> (pyval \<times> abi_type) list \<Rightarrow>
   nat \<Rightarrow> bool \<Rightarrow> pyval list \<Rightarrow> py_error + pyval list" where
  "pre_encode_loop call_args all_inputs last_index [] index did pre_encoded_args =
     Inr pre_encoded_args"
| "pre_encode_loop call_args all_inputs last_index ((call_arg, input_type) # rest)
     index did pre_encoded_args =
     (if endswith (type input_type) ''*'' then
        (if did then
           pre_encode_loop call_args all_inputs last_index rest index False pre_encoded_args
         else
           (case pre_encode_value call_arg of
              Inl e \<Rightarrow> Inl e
            | Inr encoded_arg \<Rightarrow>
                pre_encode_loop call_args all_inputs last_index rest (index + 1) did
                  (pre_encoded_args @ [encoded_arg])))
      else if is_arr_len all_inputs last_index index input_type then
        (case pre_encode_value call_arg of
           Inl e \<Rightarrow> Inl e
         | Inr pre_encoded_arg \<Rightarrow>
             if is_int pre_encoded_arg then
               (case list_get call_args (index + 1) of
                  Inl e \<Rightarrow> Inl e
                | Inr array \<Rightarrow>
                    (case pre_encode_array array of
                       Inl e \<Rightarrow> Inl e
                     | Inr pre_encoded_array \<Rightarrow>
                         pre_encode_loop call_args all_inputs last_index rest (index + 1) True
                           (pre_encoded_args @ [pre_encoded_array])))
             else
               pre_encode_loop call_args all_inputs last_index rest (index + 1) did
                 (pre_encoded_args @ [pre_encoded_arg]))
      else
        (case pre_encode_value call_arg of
           Inl e \<Rightarrow> Inl e
         | Inr v \<Rightarrow>
             pre_encode_loop call_args all_inputs last_index rest (index + 1) did
               (pre_encoded_args @ [v])))"

text \<open>
  The list \<^verbatim>\<open>pre_encoded_args\<close> that \<^verbatim>\<open>encode_calldata\<close> hands to the transformer.
\<close>

definition pre_encode_args :: "abi_type list \<Rightarrow> pyval list \<Rightarrow> py_error + pyval list" where
  "pre_encode_args method_inputs call_args =
     pre_encode_loop call_args method_inputs
       (int (min (length method_inputs) (length call_args)) - 1)
       (zip call_args method_inputs) 0 False []"

text \<open>
  \<^verbatim>\<open>encode_calldata\<close>. The transformer (\<^verbatim>\<open>identifier_manager_from_abi\<close> and
  \<^verbatim>\<open>DataTransformer\<close> of the Starknet libraries) is a parameter: built from the
  full interface and the method before the loop runs, which may raise, it gives the
  function \<^verbatim>\<open>from_python\<close> from the pre-encoded arguments to the calldata.
\<close>

definition encode_calldata ::
  "('f \<Rightarrow> method_abi \<Rightarrow> py_error + (pyval list \<Rightarrow> py_error + int list)) \<Rightarrow>
   'f \<Rightarrow> method_abi \<Rightarrow> pyval list \<Rightarrow> py_error + int list" where
  "encode_calldata transformer full_abi abi call_args =
     (case transformer full_abi abi of
        Inl e \<Rightarrow> Inl e
      | Inr from_python \<Rightarrow>
          (case pre_encode_args (inputs abi) call_args of
             Inl e \<Rightarrow> Inl e
           | Inr pre_encoded_args \<Rightarrow> from_python pre_encoded_args))"

section \<open>The return-data decoder\<close>

text \<open>
  \<^verbatim>\<open>[self.encode_primitive_value(v) for v in raw_data]\<close>: the first value that raises
  ends the comprehension.
\<close>

fun coerce_all :: "pyval list \<Rightarrow> py_error + pyval list" where
  "coerce_all [] = Inr []"
| "coerce_all (v # vs) =
     (case encode_primitive_value v of
        Inl e \<Rightarrow> Inl e
      | Inr c \<Rightarrow> (case coerce_all vs of Inl e \<Rightarrow> Inl e | Inr cs \<Rightarrow> Inr (c # cs)))"

text \<open>
  \<^verbatim>\<open>zip_longest(abi.outputs, abi.outputs[1:])\<close>: every output with the one after it,
  the last output with \<^verbatim>\<open>None\<close>.
\<close>

fun zip_longest_next :: "'a list \<Rightarrow> ('a \<times> 'a option) list" where
  "zip_longest_next [] = []"
| "zip_longest_next [x] = [(x, None)]"
| "zip_longest_next (x # y # ys) = (x, Some y) # zip_longest_next (y # ys)"

text \<open>
  \<^verbatim>\<open>[next(iter_data) for _ in range(array_len)]\<close>: a count that is not an int is a
  \<^verbatim>\<open>TypeError\<close> of \<^verbatim>\<open>range\<close>, a count below one gives the empty list, and an
  iterator that ends before the count is reached raises \<^verbatim>\<open>StopIteration\<close>. The
  result is the items and the iterator after them.
\<close>

fun take_items :: "nat \<Rightarrow> pyval list \<Rightarrow> py_error + (pyval list \<times> pyval list)" where
  "take_items 0 iter_data = Inr ([], iter_data)"
| "take_items (Suc n) [] = Inl StopIteration"
| "take_items (Suc n) (x # iter_data) =
     (case take_items n iter_data of
        Inl e \<Rightarrow> Inl e
      | Inr (xs, rest) \<Rightarrow> Inr (x # xs, rest))"

fun read_array :: "pyval \<Rightarrow> pyval list \<Rightarrow> py_error + (pyval list \<times> pyval list)" where
  "read_array (PInt array_len) iter_data = take_items (nat array_len) iter_data"
| "read_array v iter_data = Inl TypeError"

text \<open>
  The loop of \<^verbatim>\<open>decode_returndata\<close> over the pairs of outputs. Its state is the
  iterator \<^verbatim>\<open>iter_data\<close> (the elements not yet consumed) and the list \<^verbatim>\<open>decoded\<close>;
  it returns both.
\<close>

fun decode_outputs_loop ::
  "(abi_type \<times> abi_type option) list \<Rightarrow> pyval list \<Rightarrow> pyval list \<Rightarrow>
   py_error + (pyval list \<times> pyval list)" where
  "decode_outputs_loop [] iter_data decoded = Inr (decoded, iter_data)"
| "decode_outputs_loop ((abi_output_cur, abi_output_next) # rest) iter_data decoded =
     (if type abi_output_cur = ''Uint256'' then
        (case iter_data of
           low # high # iter_data' \<Rightarrow>
             decode_outputs_loop rest iter_data' (decoded @ [PTuple [low, high]])
         | _ \<Rightarrow> Inl StopIteration)
      else if type abi_output_cur = ''felt''
              \<and> (case abi_output_next of None \<Rightarrow> False | Some nxt \<Rightarrow> type nxt = ''felt*'') then
        (case iter_data of
           [] \<Rightarrow> Inl StopIteration
         | array_len # iter_data' \<Rightarrow>
             (case read_array array_len iter_data' of
                Inl e \<Rightarrow> Inl e
              | Inr (items, iter_data'') \<Rightarrow>
                  decode_outputs_loop rest iter_data'' (decoded @ [PList items])))
      else if type abi_output_cur = ''felt*'' then
        decode_outputs_loop rest iter_data decoded
      else
        (case iter_data of
           [] \<Rightarrow> Inl StopIteration
         | x # iter_data' \<Rightarrow> decode_outputs_loop rest iter_data' (decoded @ [x])))"

text \<open>
  The test before the final \<^verbatim>\<open>decoded = decoded[0]\<close>: one output, or two of which
  the second has the type \<^verbatim>\<open>felt*\<close>.
\<close>

definition keeps_only_first :: "abi_type list \<Rightarrow> bool" where
  "keeps_only_first outs =
     (length outs = 1 \<or> (length outs = 2 \<and> type (outs ! 1) = ''felt*''))"

text \<open>
  \<^verbatim>\<open>decode_returndata\<close>: empty raw data is returned as it is; every element is
  coerced; a one-item array gives its item; otherwise the outputs are walked and
  the decoded list, or its first entry, is returned.
\<close>

definition decode_returndata :: "method_abi \<Rightarrow> pyval list \<Rightarrow> py_error + pyval" where
  "decode_returndata abi raw_data =
     (if raw_data = [] then Inr (PList raw_data)
      else
        (case coerce_all raw_data of
           Inl e \<Rightarrow> Inl e
         | Inr data \<Rightarrow>
             if length data = 1 then list_get data 0
             else
               (case decode_outputs_loop (zip_longest_next (outputs abi)) data [] of
                  Inl e \<Rightarrow> Inl e
                | Inr (decoded, iter_data) \<Rightarrow>
                    if keeps_only_first (outputs abi) then list_get decoded 0
                    else Inr (PList decoded))))"

section \<open>The event-log decoder\<close>

text \<open>
  The loop of \<^verbatim>\<open>decode_items\<close>, the local function of \<^verbatim>\<open>decode_logs\<close>: two elements
  for a \<^verbatim>\<open>Uint256\<close>, one for every other type.
\<close>

fun decode_items_loop ::
  "abi_type list \<Rightarrow> pyval list \<Rightarrow> pyval list \<Rightarrow> py_error + pyval list" where
  "decode_items_loop [] iter_data decoded = Inr decoded"
| "decode_items_loop (abi_type # rest) iter_data decoded =
     (if type abi_type = ''Uint256'' then
        (case iter_data of
           low # high # iter_data' \<Rightarrow>
             decode_items_loop rest iter_data' (decoded @ [PTuple [low, high]])
         | _ \<Rightarrow> Inl StopIteration)
      else
        (case iter_data of
           [] \<Rightarrow> Inl StopIteration
         | x # iter_data' \<Rightarrow> decode_items_loop rest iter_data' (decoded @ [x])))"

definition decode_items :: "abi_type list \<Rightarrow> pyval list \<Rightarrow> py_error + pyval list" where
  "decode_items abi_types data = decode_items_loop abi_types data []"

text \<open>
  An \<^verbatim>\<open>EventABI\<close>, a raw log (the dictionary with the keys \<^verbatim>\<open>keys\<close>, \<^verbatim>\<open>data\<close>,
  \<^verbatim>\<open>transaction_hash\<close>, \<^verbatim>\<open>block_hash\<close> and \<^verbatim>\<open>block_number\<close>) and a \<^verbatim>\<open>ContractLog\<close>.
\<close>

record event_abi =
  event_name :: string
  event_inputs :: "abi_type list"

record raw_log =
  log_keys :: "int list"
  log_data :: "pyval list"
  log_transaction_hash :: pyval
  log_block_hash :: pyval
  log_block_number :: pyval

record contract_log =
  cl_name :: string
  cl_index :: nat
  cl_event_arguments :: "string option \<rightharpoonup> pyval"
  cl_transaction_hash :: pyval
  cl_block_hash :: pyval
  cl_block_number :: pyval

text \<open>\<^verbatim>\<open>dict(pairs)\<close>: a later pair with the same key replaces the value.\<close>

definition dict_of :: "('k \<times> 'v) list \<Rightarrow> ('k \<rightharpoonup> 'v)" where
  "dict_of pairs = foldl (\<lambda>m (k, v). m(k \<mapsto> v)) Map.empty pairs"

text \<open>
  The \<^verbatim>\<open>for\<close> loop of the generator \<^verbatim>\<open>decode_logs\<close> over \<^verbatim>\<open>enumerate(matching_logs)\<close>.
  A generator run to its end is the list of what it yielded and the exception that
  ended it, if one did. A \<^verbatim>\<open>StopIteration\<close> that \<^verbatim>\<open>decode_items\<close> raises inside the
  generator leaves it as a \<^verbatim>\<open>RuntimeError\<close>.
\<close>

fun decode_logs_loop ::
  "event_abi \<Rightarrow> (nat \<times> raw_log) list \<Rightarrow> contract_log list \<Rightarrow>
   contract_log list \<times> py_error option" where
  "decode_logs_loop abi [] yielded = (yielded, None)"
| "decode_logs_loop abi ((index, log) # rest) yielded =
     (case decode_items (event_inputs abi) (log_data log) of
        Inl e \<Rightarrow> (yielded, Some (if e = StopIteration then RuntimeError else e))
      | Inr items \<Rightarrow>
          decode_logs_loop abi rest
            (yielded @
             [\<lparr>cl_name = event_name abi, cl_index = index,
               cl_event_arguments = dict_of (zip (map name (event_inputs abi)) items),
               cl_transaction_hash = log_transaction_hash log,
               cl_block_hash = log_block_hash log,
               cl_block_number = log_block_number log\<rparr>]))"

text \<open>
  \<^verbatim>\<open>decode_logs\<close>; \<^verbatim>\<open>get_selector_from_name\<close> of the Starknet library is a parameter.
\<close>

definition decode_logs ::
  "(string \<Rightarrow> int) \<Rightarrow> event_abi \<Rightarrow> raw_log list \<Rightarrow> contract_log list \<times> py_error option" where
  "decode_logs get_selector_from_name abi raw_logs =
     (let event_key = get_selector_from_name (event_name abi);
          matching_logs = filter (\<lambda>log. event_key \<in> set (log_keys log)) raw_logs
      in decode_logs_loop abi (zip [0 ..< length matching_logs] matching_logs) [])"

section \<open>The proxy resolver\<close>

datatype ProxyType = LEGACY | ARGENT_X | OPEN_ZEPPELIN

text \<open>\<^verbatim>\<open>StarknetProxy\<close>: the target address and the proxy type.\<close>

record StarknetProxy =
  target :: string
  proxy_type :: ProxyType

text \<open>The calls \<^verbatim>\<open>get_proxy_info\<close> makes on the contract and on the provider's client.\<close>

datatype external_call = Invoke string | GetStorageAt int

text \<open>
  What \<^verbatim>\<open>get_proxy_info\<close> reads from its surroundings for the address it is given:
  whether \<^verbatim>\<open>instance_at(address)\<close> is a \<^verbatim>\<open>ContractInstance\<close>, the names of the view
  methods of its contract type, what the calls \<^verbatim>\<open>implementation()\<close> and
  \<^verbatim>\<open>get_implementation()\<close> return or raise, the provider's client (absent, or the
  function \<^verbatim>\<open>get_storage_at_sync\<close> at the key \<^verbatim>\<open>OZ_PROXY_STORAGE_KEY\<close>), what
  \<^verbatim>\<open>encode_address(address)\<close> returns or raises, and the function
  \<^verbatim>\<open>decode_address\<close> (\<^verbatim>\<open>to_checksum_address\<close> of \<^verbatim>\<open>ape_starknet.utils\<close>).
\<close>

record proxy_env =
  is_contract_instance :: bool
  view_methods :: "string list"
  implementation :: "py_error + pyval"
  get_implementation :: "py_error + pyval"
  client :: "(int \<Rightarrow> py_error + pyval) option"
  encode_address :: "py_error + int"
  decode_address :: "pyval \<Rightarrow> py_error + string"

text \<open>
  The chain of probes of \<^verbatim>\<open>get_proxy_info\<close>: the calls made, and either the
  exception raised or the values of the variables \<^verbatim>\<open>target\<close> and \<^verbatim>\<open>proxy_type\<close>
  after the chain (both \<^verbatim>\<open>None\<close> before it).
\<close>

definition probe_proxy ::
  "proxy_env \<Rightarrow> external_call list \<times> (py_error + (pyval \<times> ProxyType option))" where
  "probe_proxy env =
     (if ''implementation'' \<in> set (view_methods env) then
        ([Invoke ''implementation''],
         case implementation env of
           Inl e \<Rightarrow> Inl e
         | Inr t \<Rightarrow> Inr (t, Some LEGACY))
      else if ''get_implementation'' \<in> set (view_methods env) then
        ([Invoke ''get_implementation''],
         case get_implementation env of
           Inl e \<Rightarrow> Inl e
         | Inr t \<Rightarrow> Inr (t, Some ARGENT_X))
      else
        (case client env of
           None \<Rightarrow> ([], Inr (PNone, None))
         | Some get_storage_at_sync \<Rightarrow>
             (case encode_address env of
                Inl e \<Rightarrow> ([], Inl e)
              | Inr address_int \<Rightarrow>
                  ([GetStorageAt address_int],
                   case get_storage_at_sync address_int of
                     Inl e \<Rightarrow> Inl e
                   | Inr t \<Rightarrow>
                       if t = PStr ''0x0'' then Inr (PNone, None)
                       else Inr (t, Some OPEN_ZEPPELIN)))))"

text \<open>
  \<^verbatim>\<open>get_proxy_info\<close>. A member of the plain \<^verbatim>\<open>Enum\<close> class \<^verbatim>\<open>ProxyType\<close> is true
  whatever its value, so \<^verbatim>\<open>target and proxy_type\<close> holds when the target is true
  and a proxy type was set.
\<close>

definition get_proxy_info ::
  "proxy_env \<Rightarrow> external_call list \<times> (py_error + StarknetProxy option)" where
  "get_proxy_info env =
     (if \<not> is_contract_instance env then ([], Inr None)
      else
        (case probe_proxy env of
           (calls, Inl e) \<Rightarrow> (calls, Inl e)
         | (calls, Inr (tgt, ptype)) \<Rightarrow>
             (calls,
              if truthy tgt then
                (case ptype of
                   None \<Rightarrow> Inr None
                 | Some k \<Rightarrow>
                     (case decode_address env tgt of
                        Inl e \<Rightarrow> Inl e
                      | Inr a \<Rightarrow> Inr (Some \<lparr>target = a, proxy_type = k\<rparr>)))
              else Inr None)))"

section \<open>The packer\<close>

text \<open>
  Modelled from the spec: the ABI-structural packer that \<^verbatim>\<open>encode_calldata\<close> hands its
  pre-encoded arguments to (\<^verbatim>\<open>DataTransformer.from_python\<close> of the Starknet library,
  which is not among the sources). The spec gives it three duties: the fields of a
  struct in order, a length prefix for every array, and a wide integer split in two
  elements, the low 128 bits first. A length parameter whose array follows it takes
  no argument of its own.
\<close>

fun pack_value :: "pyval \<Rightarrow> py_error + int list"
  and pack_items :: "pyval list \<Rightarrow> py_error + int list"
  and pack_fields :: "(string \<times> pyval) list \<Rightarrow> py_error + int list"
where
  "pack_value (PInt n) = Inr [n]"
| "pack_value (PList xs) =
     (case pack_items xs of Inl e \<Rightarrow> Inl e | Inr r \<Rightarrow> Inr (int (length xs) # r))"
| "pack_value (PDict kvs) = pack_fields kvs"
| "pack_value (PStr s) = Inl TypeError"
| "pack_value (PHexBytes bs) = Inl TypeError"
| "pack_value (PTuple xs) = Inl TypeError"
| "pack_value PNone = Inl TypeError"
| "pack_items [] = Inr []"
| "pack_items (x # xs) =
     (case pack_value x of
        Inl e \<Rightarrow> Inl e
      | Inr r \<Rightarrow> (case pack_items xs of Inl e \<Rightarrow> Inl e | Inr rs \<Rightarrow> Inr (r @ rs)))"
| "pack_fields [] = Inr []"
| "pack_fields ((k, v) # kvs) =
     (case pack_value v of
        Inl e \<Rightarrow> Inl e
      | Inr r \<Rightarrow> (case pack_fields kvs of Inl e \<Rightarrow> Inl e | Inr rs \<Rightarrow> Inr (r @ rs)))"

fun pack_typed :: "string \<Rightarrow> pyval \<Rightarrow> py_error + int list" where
  "pack_typed ty (PInt n) =
     (if ty = ''Uint256'' then Inr [n mod 2 ^ 128, n div 2 ^ 128] else Inr [n])"
| "pack_typed ty v = pack_value v"

fun payload_inputs :: "abi_type list \<Rightarrow> abi_type list" where
  "payload_inputs [] = []"
| "payload_inputs [i] = [i]"
| "payload_inputs (i # j # js) =
     (if (case name i of None \<Rightarrow> False | Some nm \<Rightarrow> endswith nm ''_len'')
         \<and> endswith (type j) ''*''
      then payload_inputs (j # js)
      else i # payload_inputs (j # js))"

fun pack_args :: "abi_type list \<Rightarrow> pyval list \<Rightarrow> py_error + int list" where
  "pack_args [] [] = Inr []"
| "pack_args (i # is) (a # as) =
     (case pack_typed (type i) a of
        Inl e \<Rightarrow> Inl e
      | Inr r \<Rightarrow> (case pack_args is as of Inl e \<Rightarrow> Inl e | Inr rs \<Rightarrow> Inr (r @ rs)))"
| "pack_args is as = Inl TypeError"

definition spec_transformer ::
  "unit \<Rightarrow> method_abi \<Rightarrow> py_error + (pyval list \<Rightarrow> py_error + int list)" where
  "spec_transformer full_abi abi = Inr (pack_args (payload_inputs (inputs abi)))"

section \<open>Notions the theorems are stated with\<close>

text \<open>The integer a string of base-16 digits denotes, the first digit the most significant.\<close>

definition hex_value :: "string \<Rightarrow> int" where
  "hex_value ds = foldl (\<lambda>a c. a * 16 + (case hex_digit_value c of Some d \<Rightarrow> d | None \<Rightarrow> 0)) 0 ds"

text \<open>The integer a byte string denotes, the first byte the most significant.\<close>

definition be_value :: "8 word list \<Rightarrow> int" where
  "be_value bs = foldl (\<lambda>a b. a * 256 + uint b) 0 bs"

text \<open>A character that is a base-16 digit.\<close>

definition is_hex_digit :: "char \<Rightarrow> bool" where
  "is_hex_digit c = (hex_digit_value c \<noteq> None)"

text \<open>
  The number of raw elements an event input takes (two for a \<^verbatim>\<open>Uint256\<close>, one for
  any other type), the number all inputs take together, the position in the data
  at which input \<open>i\<close> starts, and the value decoded for input \<open>i\<close> from there.
\<close>

definition item_width :: "abi_type \<Rightarrow> nat" where
  "item_width t = (if type t = ''Uint256'' then 2 else 1)"

definition items_required :: "abi_type list \<Rightarrow> nat" where
  "items_required tys = sum_list (map item_width tys)"

definition item_offset :: "abi_type list \<Rightarrow> nat \<Rightarrow> nat" where
  "item_offset tys i = sum_list (map item_width (take i tys))"

definition item_at :: "abi_type list \<Rightarrow> pyval list \<Rightarrow> nat \<Rightarrow> pyval" where
  "item_at tys data i =
     (if type (tys ! i) = ''Uint256''
      then PTuple [data ! item_offset tys i, data ! (item_offset tys i + 1)]
      else data ! item_offset tys i)"

text \<open>
  The number of raw elements the walk of \<^verbatim>\<open>decode_returndata\<close> over pairs of
  outputs asks of integer data: two for a \<^verbatim>\<open>Uint256\<close>, one for the length of an
  array and as many as that length says for its items, none for the \<^verbatim>\<open>felt*\<close>
  entry itself, one for anything else.
\<close>

fun outputs_required :: "(abi_type \<times> abi_type option) list \<Rightarrow> int list \<Rightarrow> nat" where
  "outputs_required [] d = 0"
| "outputs_required ((cur, nxt) # rest) d =
     (if type cur = ''Uint256'' then 2 + outputs_required rest (drop 2 d)
      else if type cur = ''felt''
              \<and> (case nxt of None \<Rightarrow> False | Some n \<Rightarrow> type n = ''felt*'') then
        (case d of
           [] \<Rightarrow> 1 + outputs_required rest []
         | n # d' \<Rightarrow> 1 + nat n + outputs_required rest (drop (nat n) d'))
      else if type cur = ''felt*'' then outputs_required rest d
      else 1 + outputs_required rest (drop 1 d))"

text \<open>
  Decoding, against the outputs of a method, the calldata encoded against its
  inputs.
\<close>

definition round_trip ::
  "('f \<Rightarrow> method_abi \<Rightarrow> py_error + (pyval list \<Rightarrow> py_error + int list)) \<Rightarrow>
   'f \<Rightarrow> method_abi \<Rightarrow> pyval list \<Rightarrow> py_error + pyval" where
  "round_trip transformer full_abi abi v =
     (case encode_calldata transformer full_abi abi v of
        Inl e \<Rightarrow> Inl e
      | Inr wire \<Rightarrow> decode_returndata abi (map PInt wire))"

section \<open>Concrete inputs\<close>

text \<open>
  Two surroundings of \<^verbatim>\<open>get_proxy_info\<close>: a contract that has both view methods,
  and one that has neither and whose storage slot reads \<^verbatim>\<open>"0x0"\<close> at address 1.
\<close>

definition both_env :: proxy_env where
  "both_env =
     \<lparr>is_contract_instance = True,
      view_methods = [''get_implementation'', ''implementation''],
      implementation = Inr (PInt 5),
      get_implementation = Inr (PInt 6),
      client = Some (\<lambda>a. Inr (PStr ''0x7'')),
      encode_address = Inr 1,
      decode_address = (\<lambda>v. case v of PInt n \<Rightarrow> Inr (if n = 5 then ''0x5'' else ''0x6'') | _ \<Rightarrow> Inr ''0x7'')\<rparr>"

definition oz_env :: proxy_env where
  "oz_env =
     \<lparr>is_contract_instance = True,
      view_methods = [''balance_of''],
      implementation = Inl TypeError,
      get_implementation = Inl TypeError,
      client = Some (\<lambda>a. if a = 1 then Inr (PStr ''0x0'') else Inr (PStr ''0x7'')),
      encode_address = Inr 1,
      decode_address = (\<lambda>v. Inr ''0x7'')\<rparr>"

text \<open>
  Signature entries of the types \<^verbatim>\<open>Uint256\<close>, \<^verbatim>\<open>felt\<close> and \<^verbatim>\<open>felt*\<close>, a method with
  given outputs, an event with given inputs, a raw log with given data, a method
  whose inputs and outputs are the same signature, and the inputs of a function
  that takes two arrays.
\<close>

definition wide :: "string \<Rightarrow> abi_type" where
  "wide nm = \<lparr>name = Some nm, type = ''Uint256''\<rparr>"

definition felt :: "string \<Rightarrow> abi_type" where
  "felt nm = \<lparr>name = Some nm, type = ''felt''\<rparr>"

definition felt_array :: "string \<Rightarrow> abi_type" where
  "felt_array nm = \<lparr>name = Some nm, type = ''felt*''\<rparr>"

definition returns :: "abi_type list \<Rightarrow> method_abi" where
  "returns outs = \<lparr>method_name = ''get'', inputs = [], outputs = outs\<rparr>"

definition transfer_event :: "abi_type list \<Rightarrow> event_abi" where
  "transfer_event ins = \<lparr>event_name = ''Transfer'', event_inputs = ins\<rparr>"

definition log_with :: "pyval list \<Rightarrow> raw_log" where
  "log_with data =
     \<lparr>log_keys = [7], log_data = data, log_transaction_hash = PStr ''0xabc'',
      log_block_hash = PStr ''0xdef'', log_block_number = PInt 3\<rparr>"

definition signature :: "abi_type list \<Rightarrow> method_abi" where
  "signature sig = \<lparr>method_name = ''f'', inputs = sig, outputs = sig\<rparr>"

definition two_arrays :: "abi_type list" where
  "two_arrays = [felt ''a_len'', felt_array ''a'', felt ''b_len'', felt_array ''b'']"

section \<open>Return data of one element\<close>

text \<open>
  Claim C3. Whatever the output signature is, \<^verbatim>\<open>decode_returndata\<close> on raw data of
  exactly one element returns what the coercer makes of that element, not a
  one-element sequence, and the outputs are never looked at: the result is the
  same for every \<open>abi\<close>. On \<^verbatim>\<open>[42]\<close> it returns \<^verbatim>\<open>42\<close>.
\<close>

theorem decode_returndata_single_raw:
  "decode_returndata abi [v] = encode_primitive_value v
   \<and> decode_returndata abi [PInt 42] = Inr (PInt 42)"
  by (cases "encode_primitive_value v") (simp_all add: decode_returndata_def list_get_def)

section \<open>Proxy resolution\<close>

text \<open>
  Claim C7. The probes of \<^verbatim>\<open>get_proxy_info\<close> are tried in the order Legacy, Argent-X,
  OpenZeppelin storage slot, and the first that applies decides. A contract with
  the view method \<^verbatim>\<open>implementation\<close>, whether or not it also has
  \<^verbatim>\<open>get_implementation\<close>, is resolved by the single call \<^verbatim>\<open>implementation()\<close> and
  tagged \<open>LEGACY\<close>; \<^verbatim>\<open>get_implementation()\<close> is called only when \<^verbatim>\<open>implementation\<close>
  is absent, and the storage slot is read only when both are absent.
\<close>

theorem proxy_priority:
  assumes "is_contract_instance env"
  shows "(''implementation'' \<in> set (view_methods env) \<longrightarrow>
            get_proxy_info env =
              ([Invoke ''implementation''],
               case implementation env of
                 Inl e \<Rightarrow> Inl e
               | Inr t \<Rightarrow>
                   if truthy t then
                     (case decode_address env t of
                        Inl e \<Rightarrow> Inl e
                      | Inr a \<Rightarrow> Inr (Some \<lparr>target = a, proxy_type = LEGACY\<rparr>))
                   else Inr None))
       \<and> (''implementation'' \<notin> set (view_methods env)
            \<and> ''get_implementation'' \<in> set (view_methods env) \<longrightarrow>
            get_proxy_info env =
              ([Invoke ''get_implementation''],
               case get_implementation env of
                 Inl e \<Rightarrow> Inl e
               | Inr t \<Rightarrow>
                   if truthy t then
                     (case decode_address env t of
                        Inl e \<Rightarrow> Inl e
                      | Inr a \<Rightarrow> Inr (Some \<lparr>target = a, proxy_type = ARGENT_X\<rparr>))
                   else Inr None))
       \<and> (''implementation'' \<notin> set (view_methods env)
            \<and> ''get_implementation'' \<notin> set (view_methods env)
            \<and> client env = Some read \<and> encode_address env = Inr address_int \<longrightarrow>
            get_proxy_info env =
              ([GetStorageAt address_int],
               case read address_int of
                 Inl e \<Rightarrow> Inl e
               | Inr t \<Rightarrow>
                   if truthy t \<and> t \<noteq> PStr ''0x0'' then
                     (case decode_address env t of
                        Inl e \<Rightarrow> Inl e
                      | Inr a \<Rightarrow> Inr (Some \<lparr>target = a, proxy_type = OPEN_ZEPPELIN\<rparr>))
                   else Inr None))"
proof (intro conjI impI)
  assume "''implementation'' \<in> set (view_methods env)"
  with assms show "get_proxy_info env =
              ([Invoke ''implementation''],
               case implementation env of
                 Inl e \<Rightarrow> Inl e
               | Inr t \<Rightarrow>
                   if truthy t then
                     (case decode_address env t of
                        Inl e \<Rightarrow> Inl e
                      | Inr a \<Rightarrow> Inr (Some \<lparr>target = a, proxy_type = LEGACY\<rparr>))
                   else Inr None)"
    by (cases "implementation env") (simp_all add: get_proxy_info_def probe_proxy_def)
next
  assume "''implementation'' \<notin> set (view_methods env)
            \<and> ''get_implementation'' \<in> set (view_methods env)"
  with assms show "get_proxy_info env =
              ([Invoke ''get_implementation''],
               case get_implementation env of
                 Inl e \<Rightarrow> Inl e
               | Inr t \<Rightarrow>
                   if truthy t then
                     (case decode_address env t of
                        Inl e \<Rightarrow> Inl e
                      | Inr a \<Rightarrow> Inr (Some \<lparr>target = a, proxy_type = ARGENT_X\<rparr>))
                   else Inr None)"
    by (cases "get_implementation env") (simp_all add: get_proxy_info_def probe_proxy_def)
next
  assume "''implementation'' \<notin> set (view_methods env)
            \<and> ''get_implementation'' \<notin> set (view_methods env)
            \<and> client env = Some read \<and> encode_address env = Inr address_int"
  with assms show "get_proxy_info env =
              ([GetStorageAt address_int],
               case read address_int of
                 Inl e \<Rightarrow> Inl e
               | Inr t \<Rightarrow>
                   if truthy t \<and> t \<noteq> PStr ''0x0'' then
                     (case decode_address env t of
                        Inl e \<Rightarrow> Inl e
                      | Inr a \<Rightarrow> Inr (Some \<lparr>target = a, proxy_type = OPEN_ZEPPELIN\<rparr>))
                   else Inr None)"
    by (cases "read address_int") (simp_all add: get_proxy_info_def probe_proxy_def)
qed

text \<open>
  The theorem at a contract that has both view methods, at one that has only
  \<^verbatim>\<open>get_implementation\<close>, and at one that has neither.
\<close>

theorem proxy_priority_witness:
  "get_proxy_info both_env =
     ([Invoke ''implementation''], Inr (Some \<lparr>target = ''0x5'', proxy_type = LEGACY\<rparr>))
   \<and> get_proxy_info (both_env\<lparr>view_methods := [''get_implementation'']\<rparr>) =
     ([Invoke ''get_implementation''], Inr (Some \<lparr>target = ''0x6'', proxy_type = ARGENT_X\<rparr>))
   \<and> get_proxy_info (both_env\<lparr>view_methods := [''balance_of'']\<rparr>) =
     ([GetStorageAt 1], Inr (Some \<lparr>target = ''0x7'', proxy_type = OPEN_ZEPPELIN\<rparr>))"
proof -
  have i: "is_contract_instance both_env" by (simp add: both_env_def)
  have i1: "is_contract_instance (both_env\<lparr>view_methods := [''get_implementation'']\<rparr>)" by (simp add: both_env_def)
  have i2: "is_contract_instance (both_env\<lparr>view_methods := [''balance_of'']\<rparr>)" by (simp add: both_env_def)
  show ?thesis
    using proxy_priority [OF i] proxy_priority [OF i1]
      proxy_priority [OF i2, of "\<lambda>a. Inr (PStr ''0x7'')" 1]
    by (simp add: both_env_def)
qed

text \<open>What \<^verbatim>\<open>get_proxy_info\<close> returns, from what the probes left.\<close>

lemma get_proxy_info_snd:
  "snd (get_proxy_info env) =
     (if \<not> is_contract_instance env then Inr None
      else (case snd (probe_proxy env) of
              Inl e \<Rightarrow> Inl e
            | Inr (tgt, ptype) \<Rightarrow>
                if truthy tgt then
                  (case ptype of
                     None \<Rightarrow> Inr None
                   | Some k \<Rightarrow>
                       (case decode_address env tgt of
                          Inl e \<Rightarrow> Inl e
                        | Inr a \<Rightarrow> Inr (Some \<lparr>target = a, proxy_type = k\<rparr>)))
                else Inr None))"
  by (simp add: get_proxy_info_def split: prod.splits sum.splits)

text \<open>
  Claim C8. \<^verbatim>\<open>get_proxy_info\<close> returns a \<^verbatim>\<open>StarknetProxy\<close> only when the probes left
  both a target (a true value) and a proxy type, and the descriptor holds that
  type and the decoded target; when the probes left no proxy type, or a target
  that is not true, it returns \<^verbatim>\<open>None\<close>. In particular, when the storage slot reads
  \<^verbatim>\<open>"0x0"\<close>, nothing is returned.
\<close>

theorem proxy_descriptor_only_when_both:
  "(snd (get_proxy_info env) = Inr (Some p) \<longrightarrow>
      is_contract_instance env
      \<and> (\<exists>t. snd (probe_proxy env) = Inr (t, Some (proxy_type p)) \<and> truthy t
              \<and> decode_address env t = Inr (target p)))
   \<and> (snd (probe_proxy env) = Inr (t, None) \<longrightarrow> snd (get_proxy_info env) = Inr None)
   \<and> (snd (probe_proxy env) = Inr (t, k) \<and> \<not> truthy t \<longrightarrow> snd (get_proxy_info env) = Inr None)
   \<and> (is_contract_instance env
        \<and> ''implementation'' \<notin> set (view_methods env)
        \<and> ''get_implementation'' \<notin> set (view_methods env)
        \<and> client env = Some read \<and> encode_address env = Inr address_int
        \<and> read address_int = Inr (PStr ''0x0'') \<longrightarrow>
        get_proxy_info env = ([GetStorageAt address_int], Inr None))"
proof (intro conjI impI)
  assume r: "snd (get_proxy_info env) = Inr (Some p)"
  then show "is_contract_instance env"
    by (simp add: get_proxy_info_snd split: if_splits)
  from r show "\<exists>t. snd (probe_proxy env) = Inr (t, Some (proxy_type p)) \<and> truthy t
              \<and> decode_address env t = Inr (target p)"
    by (auto simp: get_proxy_info_snd split: if_splits sum.splits option.splits)
next
  assume "snd (probe_proxy env) = Inr (t, None)"
  then show "snd (get_proxy_info env) = Inr None"
    by (simp add: get_proxy_info_snd)
next
  assume "snd (probe_proxy env) = Inr (t, k) \<and> \<not> truthy t"
  then show "snd (get_proxy_info env) = Inr None"
    by (simp add: get_proxy_info_snd)
next
  assume "is_contract_instance env
        \<and> ''implementation'' \<notin> set (view_methods env)
        \<and> ''get_implementation'' \<notin> set (view_methods env)
        \<and> client env = Some read \<and> encode_address env = Inr address_int
        \<and> read address_int = Inr (PStr ''0x0'')"
  then show "get_proxy_info env = ([GetStorageAt address_int], Inr None)"
    by (simp add: get_proxy_info_def probe_proxy_def)
qed

text \<open>
  The theorem at a contract whose storage slot reads \<^verbatim>\<open>"0x0"\<close>, at one whose slot
  holds an address, and at a legacy proxy whose \<^verbatim>\<open>implementation()\<close> returns zero.
\<close>

theorem proxy_descriptor_only_when_both_witness:
  "get_proxy_info oz_env = ([GetStorageAt 1], Inr None)
   \<and> snd (probe_proxy oz_env) = Inr (PNone, None)
   \<and> snd (get_proxy_info (oz_env\<lparr>encode_address := Inr 2\<rparr>)) =
       Inr (Some \<lparr>target = ''0x7'', proxy_type = OPEN_ZEPPELIN\<rparr>)
   \<and> snd (probe_proxy (oz_env\<lparr>encode_address := Inr 2\<rparr>)) = Inr (PStr ''0x7'', Some OPEN_ZEPPELIN)
   \<and> snd (probe_proxy (oz_env\<lparr>view_methods := [''implementation''], implementation := Inr (PInt 0)\<rparr>))
       = Inr (PInt 0, Some LEGACY)
   \<and> snd (get_proxy_info (oz_env\<lparr>view_methods := [''implementation''], implementation := Inr (PInt 0)\<rparr>))
       = Inr None"
  using proxy_descriptor_only_when_both
          [of oz_env "\<lparr>target = ''0x7'', proxy_type = OPEN_ZEPPELIN\<rparr>" PNone None
              "\<lambda>a. if a = 1 then Inr (PStr ''0x0'') else Inr (PStr ''0x7'')" 1]
        proxy_descriptor_only_when_both
          [of "oz_env\<lparr>encode_address := Inr 2\<rparr>" "\<lparr>target = ''0x7'', proxy_type = OPEN_ZEPPELIN\<rparr>"]
        proxy_descriptor_only_when_both
          [of "oz_env\<lparr>view_methods := [''implementation''], implementation := Inr (PInt 0)\<rparr>"
              _ "PInt 0" "Some LEGACY"]
  by (simp add: oz_env_def probe_proxy_def get_proxy_info_def)


section \<open>The primitive coercer\<close>

text \<open>
  Python's \<^verbatim>\<open>int(s, 16)\<close> on the prefix \<^verbatim>\<open>0x\<close> followed by digits alone reads the
  digits; on the text of \<^verbatim>\<open>HexBytes.hex()\<close> this is the big-endian value of the bytes.
\<close>

lemma hex_digit_not_underscore: "is_hex_digit c \<Longrightarrow> c \<noteq> CHR ''_''"
  by (auto simp: is_hex_digit_def hex_digit_value_def)

lemma hex_digit_not_space: "is_hex_digit c \<Longrightarrow> \<not> py_isspace c"
  by (auto simp: is_hex_digit_def hex_digit_value_def py_isspace_def Let_def split: if_splits)

lemma scan_hex_digits_all:
  "list_all is_hex_digit ds \<Longrightarrow>
   scan_hex_digits ds False acc =
     Some (foldl (\<lambda>a c. a * 16 + (case hex_digit_value c of Some d \<Rightarrow> d | None \<Rightarrow> 0)) acc ds, [])"
proof (induction ds arbitrary: acc)
  case Nil
  then show ?case by simp
next
  case (Cons c cs)
  then have c: "is_hex_digit c" and cs: "list_all is_hex_digit cs" by simp_all
  from c obtain d where d: "hex_digit_value c = Some d" by (auto simp: is_hex_digit_def)
  from c have "c \<noteq> CHR ''_''" by (rule hex_digit_not_underscore)
  with d Cons.IH [OF cs] show ?case by simp
qed

lemma py_int_base16_prefixed:
  assumes "p = ''0x'' \<or> p = ''0X''" and "ds \<noteq> []" and "list_all is_hex_digit ds"
  shows "py_int_base16 (p @ ds) = Inr (hex_value ds)"
proof -
  from assms(2) obtain c cs where ds: "ds = c # cs" by (cases ds) auto
  with assms(3) have c: "is_hex_digit c" by simp
  then have nu: "c \<noteq> CHR ''_''" by (rule hex_digit_not_underscore)
  from c have hv: "hex_digit_value c \<noteq> None" by (simp add: is_hex_digit_def)
  have sp: "\<not> py_isspace CHR ''0''" by (simp add: py_isspace_def)
  have scan: "scan_hex_digits (c # cs) False 0 = Some (hex_value ds, [])"
    using scan_hex_digits_all [OF assms(3), of 0] by (simp add: ds hex_value_def)
  from assms(1) show ?thesis
  proof
    assume "p = ''0x''"
    with nu hv sp scan show ?thesis
      by (simp add: py_int_base16_def is_0x_prefixed_def ds)
  next
    assume "p = ''0X''"
    with nu hv sp scan show ?thesis
      by (simp add: py_int_base16_def is_0x_prefixed_def ds)
  qed
qed

lemma hex_digit_value_hex_char: "d < 16 \<Longrightarrow> hex_digit_value (hex_char d) = Some (int d)"
  by (auto simp: hex_digit_value_def hex_char_def Let_def)

lemma is_hex_digit_hex_char: "d < 16 \<Longrightarrow> is_hex_digit (hex_char d)"
  by (simp add: is_hex_digit_def hex_digit_value_hex_char)

lemma unat_byte_div: "unat (b :: 8 word) div 16 < 16"
proof -
  have "unat b < 256" using unsigned_less [of b, where 'a = nat] by simp
  then show ?thesis by simp
qed

lemma byte_hex_digits: "list_all is_hex_digit (byte_hex b)"
  by (simp add: byte_hex_def is_hex_digit_hex_char unat_byte_div)

lemma concat_byte_hex_digits: "list_all is_hex_digit (concat (map byte_hex bs))"
  by (induction bs) (simp_all add: byte_hex_digits)

lemma foldl_byte_hex:
  "foldl (\<lambda>a c. a * 16 + (case hex_digit_value c of Some d \<Rightarrow> d | None \<Rightarrow> 0)) acc
     (concat (map byte_hex bs)) =
   foldl (\<lambda>a b. a * 256 + uint b) acc bs"
proof (induction bs arbitrary: acc)
  case Nil
  then show ?case by simp
next
  case (Cons b bs)
  have "int (unat b div 16) * 16 + int (unat b mod 16) = uint b"
    by (simp add: zdiv_int zmod_int flip: of_nat_mult of_nat_add)
  then have e: "(acc * 16 + int (unat b div 16)) * 16 + int (unat b mod 16) = acc * 256 + uint b"
    by (simp add: algebra_simps)
  have "foldl (\<lambda>a c. a * 16 + (case hex_digit_value c of Some d \<Rightarrow> d | None \<Rightarrow> 0)) acc
          (concat (map byte_hex (b # bs))) =
        foldl (\<lambda>a c. a * 16 + (case hex_digit_value c of Some d \<Rightarrow> d | None \<Rightarrow> 0))
          ((acc * 16 + int (unat b div 16)) * 16 + int (unat b mod 16))
          (concat (map byte_hex bs))"
    by (simp add: byte_hex_def hex_digit_value_hex_char unat_byte_div)
  also have "\<dots> = foldl (\<lambda>a b. a * 256 + uint b) (acc * 256 + uint b) bs"
    unfolding e by (rule Cons.IH)
  finally show ?case by simp
qed

lemma hex_value_hexbytes: "hex_value (concat (map byte_hex bs)) = be_value bs"
  by (simp add: hex_value_def be_value_def foldl_byte_hex)

lemma py_int_base16_hexbytes:
  "bs \<noteq> [] \<Longrightarrow> py_int_base16 (hexbytes_hex bs) = Inr (be_value bs)"
proof -
  assume "bs \<noteq> []"
  then have "concat (map byte_hex bs) \<noteq> []" by (cases bs) (simp_all add: byte_hex_def)
  then show ?thesis
    using py_int_base16_prefixed [of "''0x''" "concat (map byte_hex bs)"]
    by (simp add: hexbytes_hex_def concat_byte_hex_digits hex_value_hexbytes)
qed

lemma py_int_base16_error: "py_int_base16 s = Inl e \<Longrightarrow> e = ValueError"
  by (auto simp: py_int_base16_def Let_def split: list.splits if_splits option.splits prod.splits)

lemma hex_digit_value_nonneg: "hex_digit_value c = Some d \<Longrightarrow> 0 \<le> d"
  by (auto simp: hex_digit_value_def Let_def split: if_splits)

lemma foldl_hex_nonneg:
  "0 \<le> acc \<Longrightarrow>
   0 \<le> foldl (\<lambda>a c. a * 16 + (case hex_digit_value c of Some d \<Rightarrow> d | None \<Rightarrow> 0)) acc ds"
proof (induction ds arbitrary: acc)
  case Nil
  then show ?case by simp
next
  case (Cons c cs)
  have "0 \<le> (case hex_digit_value c of Some d \<Rightarrow> d | None \<Rightarrow> 0)"
    by (cases "hex_digit_value c") (simp_all add: hex_digit_value_nonneg)
  with Cons.prems have "0 \<le> acc * 16 + (case hex_digit_value c of Some d \<Rightarrow> d | None \<Rightarrow> 0)"
    by simp
  then show ?case using Cons.IH by simp
qed

lemma hex_value_nonneg: "0 \<le> hex_value ds"
  by (simp add: hex_value_def foldl_hex_nonneg)

lemma be_value_nonneg: "0 \<le> be_value bs"
  using hex_value_nonneg [of "concat (map byte_hex bs)"] by (simp add: hex_value_hexbytes)

lemma encode_primitive_value_error:
  assumes "encode_primitive_value v = Inl e"
  shows "e = ValueError \<and> ((\<exists>s. v = PStr s \<and> is_0x_prefixed s) \<or> v = PHexBytes [])"
proof (cases v)
  case (PStr s)
  with assms show ?thesis
    by (auto split: if_splits sum.splits dest: py_int_base16_error)
next
  case (PHexBytes bs)
  show ?thesis
  proof (cases "bs = []")
    case True
    with assms PHexBytes show ?thesis
      by (auto split: sum.splits dest: py_int_base16_error)
  next
    case False
    with assms PHexBytes show ?thesis by (simp add: py_int_base16_hexbytes)
  qed
qed (use assms in simp_all)

text \<open>
  Claim C9 says that the coercer never raises. It does: \<^verbatim>\<open>int(value, 16)\<close> rejects a
  string that has the prefix and no well-formed digits after it.
\<close>

theorem encode_primitive_value_raises:
  "encode_primitive_value (PStr ''0xzz'') = Inl ValueError"
  by (simp add: is_0x_prefixed_def py_int_base16_def py_isspace_def hex_digit_value_def)

text \<open>
  Claim C9, amended. An int is returned unchanged. A string without the \<^verbatim>\<open>0x\<close>
  prefix is returned unchanged. A string made of the prefix and one or more
  base-16 digits gives the unsigned integer the digits denote. A \<^verbatim>\<open>HexBytes\<close> that
  is not empty gives the big-endian unsigned integer of its bytes. A value that is
  neither a string nor a \<^verbatim>\<open>HexBytes\<close> is returned unchanged. The coercer raises
  nothing but \<^verbatim>\<open>ValueError\<close>, and only on a string with the prefix or on the empty
  \<^verbatim>\<open>HexBytes\<close>.
\<close>

theorem encode_primitive_value_cases:
  "encode_primitive_value (PInt n) = Inr (PInt n)
   \<and> (\<not> is_0x_prefixed s \<longrightarrow> encode_primitive_value (PStr s) = Inr (PStr s))
   \<and> ((p = ''0x'' \<or> p = ''0X'') \<and> ds \<noteq> [] \<and> list_all is_hex_digit ds \<longrightarrow>
        encode_primitive_value (PStr (p @ ds)) = Inr (PInt (hex_value ds)) \<and> 0 \<le> hex_value ds)
   \<and> (bs \<noteq> [] \<longrightarrow>
        encode_primitive_value (PHexBytes bs) = Inr (PInt (be_value bs)) \<and> 0 \<le> be_value bs)
   \<and> ((\<forall>s'. v \<noteq> PStr s') \<and> (\<forall>bs'. v \<noteq> PHexBytes bs') \<longrightarrow> encode_primitive_value v = Inr v)
   \<and> (encode_primitive_value v = Inl e \<longrightarrow>
        e = ValueError \<and> ((\<exists>s'. v = PStr s' \<and> is_0x_prefixed s') \<or> v = PHexBytes []))"
proof (intro conjI impI)
  show "encode_primitive_value (PInt n) = Inr (PInt n)" by simp
next
  assume "\<not> is_0x_prefixed s"
  then show "encode_primitive_value (PStr s) = Inr (PStr s)" by simp
next
  assume a: "(p = ''0x'' \<or> p = ''0X'') \<and> ds \<noteq> [] \<and> list_all is_hex_digit ds"
  then have "is_0x_prefixed (p @ ds)" by (auto simp: is_0x_prefixed_def)
  moreover from a have "py_int_base16 (p @ ds) = Inr (hex_value ds)"
    by (simp add: py_int_base16_prefixed)
  ultimately show "encode_primitive_value (PStr (p @ ds)) = Inr (PInt (hex_value ds))" by simp
next
  show "0 \<le> hex_value ds" by (rule hex_value_nonneg)
next
  assume "bs \<noteq> []"
  then show "encode_primitive_value (PHexBytes bs) = Inr (PInt (be_value bs))"
    by (simp add: py_int_base16_hexbytes)
next
  show "0 \<le> be_value bs" by (rule be_value_nonneg)
next
  assume "(\<forall>s'. v \<noteq> PStr s') \<and> (\<forall>bs'. v \<noteq> PHexBytes bs')"
  then show "encode_primitive_value v = Inr v" by (cases v) simp_all
next
  assume "encode_primitive_value v = Inl e"
  then show "e = ValueError" by (simp add: encode_primitive_value_error)
next
  assume "encode_primitive_value v = Inl e"
  then show "(\<exists>s'. v = PStr s' \<and> is_0x_prefixed s') \<or> v = PHexBytes []"
    by (simp add: encode_primitive_value_error)
qed

text \<open>The theorem at one value of each kind.\<close>

theorem encode_primitive_value_cases_witness:
  "encode_primitive_value (PInt 7) = Inr (PInt 7)
   \<and> encode_primitive_value (PStr ''abc'') = Inr (PStr ''abc'')
   \<and> encode_primitive_value (PStr ''0x1f'') = Inr (PInt 31)
   \<and> encode_primitive_value (PHexBytes [1, 255]) = Inr (PInt 511)
   \<and> encode_primitive_value PNone = Inr PNone
   \<and> encode_primitive_value (PHexBytes []) = Inl ValueError"
  using encode_primitive_value_cases [of 7 "''abc''" "''0x''" "''1f''" "[1, 255]" PNone]
    encode_primitive_value_cases [of 7 "''abc''" "''0x''" "''1f''" "[1, 255]" "PHexBytes []" ValueError]
  by (simp add: is_0x_prefixed_def is_hex_digit_def hex_digit_value_def hex_value_def
      be_value_def py_int_base16_def hexbytes_hex_def)

section \<open>The event-log decoder\<close>

text \<open>
  \<^verbatim>\<open>decode_items\<close> in closed form: it raises \<^verbatim>\<open>StopIteration\<close> when the data has
  fewer elements than the inputs take, and otherwise returns, for every input, the
  value read at the input's offset.
\<close>

lemma item_offset_0: "item_offset tys 0 = 0"
  by (simp add: item_offset_def)

lemma item_offset_Suc_Cons: "item_offset (t # ts) (Suc i) = item_width t + item_offset ts i"
  by (simp add: item_offset_def)

lemma item_at_Suc_wide:
  "type t = ''Uint256'' \<Longrightarrow> item_at (t # ts) (lo # hi # it) (Suc i) = item_at ts it i"
  by (simp add: item_at_def item_offset_Suc_Cons item_width_def)

lemma item_at_Suc_single:
  "type t \<noteq> ''Uint256'' \<Longrightarrow> item_at (t # ts) (x # it) (Suc i) = item_at ts it i"
  by (simp add: item_at_def item_offset_Suc_Cons item_width_def)

lemma map_upt_shift: "map f [0 ..< Suc n] = f 0 # map (\<lambda>i. f (Suc i)) [0 ..< n]"
  by (simp add: map_upt_Suc del: upt_Suc)

lemma decode_items_loop_eq:
  "decode_items_loop tys it dec =
     (if length it < items_required tys then Inl StopIteration
      else Inr (dec @ map (item_at tys it) [0 ..< length tys]))"
proof (induction tys arbitrary: it dec)
  case Nil
  show ?case by (simp add: items_required_def)
next
  case (Cons t ts)
  show ?case
  proof (cases "type t = ''Uint256''")
    case True
    show ?thesis
    proof (cases it)
      case Nil
      with True show ?thesis by (simp add: items_required_def item_width_def)
    next
      case (Cons lo it1)
      note c1 = this
      show ?thesis
      proof (cases it1)
        case Nil
        with True c1 show ?thesis by (simp add: items_required_def item_width_def)
      next
        case (Cons hi it2)
        have r: "items_required (t # ts) = 2 + items_required ts"
          using True by (simp add: items_required_def item_width_def)
        have h: "item_at (t # ts) (lo # hi # it2) 0 = PTuple [lo, hi]"
          using True by (simp add: item_at_def item_offset_0)
        have "decode_items_loop (t # ts) it dec =
                decode_items_loop ts it2 (dec @ [PTuple [lo, hi]])"
          using True c1 Cons by simp
        also have "\<dots> = (if length it2 < items_required ts then Inl StopIteration
                   else Inr ((dec @ [PTuple [lo, hi]]) @ map (item_at ts it2) [0 ..< length ts]))"
          by (rule Cons.IH)
        finally show ?thesis
          using True h r
          by (simp add: c1 Cons map_upt_shift item_at_Suc_wide del: upt_Suc)
      qed
    qed
  next
    case False
    show ?thesis
    proof (cases it)
      case Nil
      with False show ?thesis by (simp add: items_required_def item_width_def)
    next
      case (Cons x it1)
      have r: "items_required (t # ts) = 1 + items_required ts"
        using False by (simp add: items_required_def item_width_def)
      have h: "item_at (t # ts) (x # it1) 0 = x"
        using False by (simp add: item_at_def item_offset_0)
      have "decode_items_loop (t # ts) it dec = decode_items_loop ts it1 (dec @ [x])"
        using False Cons by simp
      also have "\<dots> = (if length it1 < items_required ts then Inl StopIteration
                   else Inr ((dec @ [x]) @ map (item_at ts it1) [0 ..< length ts]))"
        by (rule Cons.IH)
      finally show ?thesis
        using False h r
        by (simp add: Cons map_upt_shift item_at_Suc_single del: upt_Suc)
    qed
  qed
qed

lemma decode_items_eq:
  "decode_items tys data =
     (if length data < items_required tys then Inl StopIteration
      else Inr (map (item_at tys data) [0 ..< length tys]))"
  by (simp add: decode_items_def decode_items_loop_eq)


section \<open>The walk over the outputs\<close>

text \<open>
  One step of the loop of \<^verbatim>\<open>decode_returndata\<close> for each of its four branches, the
  walk of a list of pairs split in two, and the number of entries it appends.
\<close>

lemma take_items_eq:
  "take_items n xs = (if length xs < n then Inl StopIteration else Inr (take n xs, drop n xs))"
proof (induction n xs rule: take_items.induct)
  case (1 iter_data)
  show ?case by simp
next
  case (2 n)
  show ?case by simp
next
  case (3 n x iter_data)
  then show ?case by simp
qed

lemma loop_wide:
  "type cur = ''Uint256'' \<Longrightarrow>
   decode_outputs_loop ((cur, nxt) # rest) it dec =
     (case it of
        lo # hi # it' \<Rightarrow> decode_outputs_loop rest it' (dec @ [PTuple [lo, hi]])
      | _ \<Rightarrow> Inl StopIteration)"
  by simp

lemma loop_array:
  "type cur \<noteq> ''Uint256'' \<Longrightarrow>
   type cur = ''felt'' \<and> (case nxt of None \<Rightarrow> False | Some n \<Rightarrow> type n = ''felt*'') \<Longrightarrow>
   decode_outputs_loop ((cur, nxt) # rest) it dec =
     (case it of
        [] \<Rightarrow> Inl StopIteration
      | array_len # it' \<Rightarrow>
          (case read_array array_len it' of
             Inl e \<Rightarrow> Inl e
           | Inr (items, it'') \<Rightarrow> decode_outputs_loop rest it'' (dec @ [PList items])))"
  by simp

lemma loop_skip:
  "type cur = ''felt*'' \<Longrightarrow>
   decode_outputs_loop ((cur, nxt) # rest) it dec = decode_outputs_loop rest it dec"
  by simp

lemma loop_scalar:
  "type cur \<noteq> ''Uint256'' \<Longrightarrow>
   \<not> (type cur = ''felt'' \<and> (case nxt of None \<Rightarrow> False | Some n \<Rightarrow> type n = ''felt*'')) \<Longrightarrow>
   type cur \<noteq> ''felt*'' \<Longrightarrow>
   decode_outputs_loop ((cur, nxt) # rest) it dec =
     (case it of
        [] \<Rightarrow> Inl StopIteration
      | x # it' \<Rightarrow> decode_outputs_loop rest it' (dec @ [x]))"
  by auto

lemma loop_cases:
  obtains (wide) "type cur = ''Uint256''"
  | (array) "type cur \<noteq> ''Uint256''"
      "type cur = ''felt'' \<and> (case nxt of None \<Rightarrow> False | Some n \<Rightarrow> type n = ''felt*'')"
  | (skip) "type cur = ''felt*''"
  | (scalar) "type cur \<noteq> ''Uint256''"
      "\<not> (type cur = ''felt'' \<and> (case nxt of None \<Rightarrow> False | Some n \<Rightarrow> type n = ''felt*''))"
      "type cur \<noteq> ''felt*''"
  by blast

lemma decode_outputs_loop_append:
  "decode_outputs_loop (ps @ qs) it dec =
     (case decode_outputs_loop ps it dec of
        Inl e \<Rightarrow> Inl e
      | Inr (dec', it') \<Rightarrow> decode_outputs_loop qs it' dec')"
proof (induction ps arbitrary: it dec)
  case Nil
  show ?case by simp
next
  case (Cons p ps)
  obtain cur nxt where p: "p = (cur, nxt)" by (cases p)
  show ?case
  proof (cases rule: loop_cases [where cur = cur and nxt = nxt])
    case wide
    show ?thesis
      unfolding p append_Cons loop_wide [OF wide] by (simp add: Cons.IH split: list.splits)
  next
    case array
    show ?thesis
      unfolding p append_Cons loop_array [OF array]
      by (simp add: Cons.IH split: list.splits sum.splits prod.splits)
  next
    case skip
    show ?thesis
      unfolding p append_Cons loop_skip [OF skip] by (simp add: Cons.IH)
  next
    case scalar
    show ?thesis
      unfolding p append_Cons loop_scalar [OF scalar] by (simp add: Cons.IH split: list.splits)
  qed
qed

lemma decode_outputs_loop_length:
  "decode_outputs_loop ps it dec = Inr (dec', it') \<Longrightarrow>
   length dec' = length dec + length (filter (\<lambda>p. type (fst p) \<noteq> ''felt*'') ps)"
proof (induction ps arbitrary: it dec)
  case Nil
  then show ?case by simp
next
  case (Cons p ps)
  obtain cur nxt where p: "p = (cur, nxt)" by (cases p)
  show ?case
  proof (cases rule: loop_cases [where cur = cur and nxt = nxt])
    case wide
    from Cons.prems obtain lo hi it2 where
      "decode_outputs_loop ps it2 (dec @ [PTuple [lo, hi]]) = Inr (dec', it')"
      unfolding p loop_wide [OF wide] by (auto split: list.splits)
    from Cons.IH [OF this] wide show ?thesis by (simp add: p)
  next
    case array
    from Cons.prems obtain items it2 where
      "decode_outputs_loop ps it2 (dec @ [PList items]) = Inr (dec', it')"
      unfolding p loop_array [OF array] by (auto split: list.splits sum.splits prod.splits)
    from Cons.IH [OF this] array show ?thesis by (auto simp: p)
  next
    case skip
    from Cons.prems have "decode_outputs_loop ps it dec = Inr (dec', it')"
      unfolding p loop_skip [OF skip] .
    from Cons.IH [OF this] skip show ?thesis by (simp add: p)
  next
    case scalar
    from Cons.prems obtain x it2 where
      "decode_outputs_loop ps it2 (dec @ [x]) = Inr (dec', it')"
      unfolding p loop_scalar [OF scalar] by (auto split: list.splits)
    from Cons.IH [OF this] scalar show ?thesis by (simp add: p)
  qed
qed

lemma map_fst_zip_longest_next: "map fst (zip_longest_next xs) = xs"
  by (induction xs rule: zip_longest_next.induct) simp_all

lemma length_zip_longest_next: "length (zip_longest_next xs) = length xs"
  by (induction xs rule: zip_longest_next.induct) simp_all

lemma filter_zip_longest_next:
  "length (filter (\<lambda>p. P (fst p)) (zip_longest_next xs)) = length (filter P xs)"
  by (induction xs rule: zip_longest_next.induct) simp_all

lemma coerce_all_length: "coerce_all vs = Inr cs \<Longrightarrow> length cs = length vs"
  by (induction vs arbitrary: cs) (auto split: sum.splits)

lemma coerce_all_ints: "coerce_all (map PInt xs) = Inr (map PInt xs)"
  by (induction xs) simp_all


text \<open>
  On integer data the walk raises \<^verbatim>\<open>StopIteration\<close> when the data is shorter than
  what the outputs ask for, and returns otherwise.
\<close>

lemma read_array_int:
  "read_array (PInt n) (map PInt d) =
     (if length d < nat n then Inl StopIteration
      else Inr (map PInt (take (nat n) d), map PInt (drop (nat n) d)))"
  by (simp add: take_items_eq take_map drop_map)

lemma decode_outputs_loop_required:
  "(length d < outputs_required ps d \<longrightarrow>
      decode_outputs_loop ps (map PInt d) dec = Inl StopIteration)
   \<and> (outputs_required ps d \<le> length d \<longrightarrow>
      (\<exists>r. decode_outputs_loop ps (map PInt d) dec = Inr r))"
proof (induction ps arbitrary: d dec)
  case Nil
  show ?case by simp
next
  case (Cons p ps)
  obtain cur nxt where p: "p = (cur, nxt)" by (cases p)
  show ?case
  proof (cases rule: loop_cases [where cur = cur and nxt = nxt])
    case wide
    show ?thesis
    proof (cases d)
      case Nil
      with wide show ?thesis by (simp add: p)
    next
      case c1: (Cons lo d1)
      show ?thesis
      proof (cases d1)
        case Nil
        with wide c1 show ?thesis by (simp add: p)
      next
        case (Cons hi d2)
        have "decode_outputs_loop (p # ps) (map PInt d) dec =
              decode_outputs_loop ps (map PInt d2) (dec @ [PTuple [PInt lo, PInt hi]])"
          unfolding p loop_wide [OF wide] by (simp add: c1 Cons)
        moreover have "outputs_required (p # ps) d = 2 + outputs_required ps d2"
          using wide by (simp add: p c1 Cons)
        moreover have "length d = 2 + length d2" by (simp add: c1 Cons)
        ultimately show ?thesis
          using Cons.IH [of d2 "dec @ [PTuple [PInt lo, PInt hi]]"] by simp
      qed
    qed
  next
    case array
    show ?thesis
    proof (cases d)
      case Nil
      with array show ?thesis by (simp add: p)
    next
      case (Cons n d1)
      show ?thesis
      proof (cases "length d1 < nat n")
        case True
        have "decode_outputs_loop (p # ps) (map PInt d) dec = Inl StopIteration"
          unfolding p loop_array [OF array] using True by (simp add: Cons take_items_eq take_map drop_map)
        moreover have "length d < outputs_required (p # ps) d"
          using array True by (simp add: p Cons)
        ultimately show ?thesis by simp
      next
        case False
        have "decode_outputs_loop (p # ps) (map PInt d) dec =
              decode_outputs_loop ps (map PInt (drop (nat n) d1))
                (dec @ [PList (map PInt (take (nat n) d1))])"
          unfolding p loop_array [OF array] using False by (simp add: Cons take_items_eq take_map drop_map)
        moreover have "outputs_required (p # ps) d =
                         1 + nat n + outputs_required ps (drop (nat n) d1)"
          using array by (simp add: p Cons)
        moreover have "length d = 1 + nat n + length (drop (nat n) d1)"
          using False by (simp add: Cons)
        ultimately show ?thesis
          using Cons.IH [of "drop (nat n) d1" "dec @ [PList (map PInt (take (nat n) d1))]"]
          by simp
      qed
    qed
  next
    case skip
    have "decode_outputs_loop (p # ps) (map PInt d) dec = decode_outputs_loop ps (map PInt d) dec"
      unfolding p loop_skip [OF skip] ..
    moreover have "outputs_required (p # ps) d = outputs_required ps d"
      using skip by (simp add: p)
    ultimately show ?thesis using Cons.IH [of d dec] by simp
  next
    case scalar
    show ?thesis
    proof (cases d)
      case Nil
      with scalar show ?thesis by (auto simp: p)
    next
      case (Cons x d1)
      have "decode_outputs_loop (p # ps) (map PInt d) dec =
            decode_outputs_loop ps (map PInt d1) (dec @ [PInt x])"
        unfolding p loop_scalar [OF scalar] by (simp add: Cons)
      moreover have "outputs_required (p # ps) d = 1 + outputs_required ps d1"
        using scalar by (auto simp: p Cons)
      moreover have "length d = 1 + length d1" by (simp add: Cons)
      ultimately show ?thesis
        using Cons.IH [of d1 "dec @ [PInt x]"] by simp
    qed
  qed
qed

section \<open>The final unwrap of the return data\<close>

text \<open>
  Claim C4. Take a call of \<^verbatim>\<open>decode_returndata\<close> on more than one raw element that
  returns a value. The raw elements were coerced and the outputs walked to a list
  of decoded entries. If the signature has exactly one output, or exactly two of
  which the second has the type \<^verbatim>\<open>felt*\<close>, that list has exactly one entry and the
  call returns this entry itself, not a list; for every other signature the call
  returns the whole list.
\<close>

theorem decode_returndata_final_unwrap:
  assumes "1 < length raw_data" and "decode_returndata abi raw_data = Inr r"
  shows "\<exists>data decoded rest.
           coerce_all raw_data = Inr data
           \<and> decode_outputs_loop (zip_longest_next (outputs abi)) data [] = Inr (decoded, rest)
           \<and> (length (outputs abi) = 1
                \<or> (length (outputs abi) = 2 \<and> type (outputs abi ! 1) = ''felt*'')
               \<longrightarrow> decoded = [r])
           \<and> (\<not> (length (outputs abi) = 1
                   \<or> (length (outputs abi) = 2 \<and> type (outputs abi ! 1) = ''felt*''))
               \<longrightarrow> r = PList decoded)"
proof -
  from assms(1) have ne: "raw_data \<noteq> []" by auto
  from assms(2) ne obtain data where data: "coerce_all raw_data = Inr data"
    by (cases "coerce_all raw_data") (simp_all add: decode_returndata_def)
  from coerce_all_length [OF data] assms(1) have len: "length data \<noteq> 1" by simp
  from assms(2) ne data len obtain decoded rest where
    loop: "decode_outputs_loop (zip_longest_next (outputs abi)) data [] = Inr (decoded, rest)"
    by (cases "decode_outputs_loop (zip_longest_next (outputs abi)) data []")
       (auto simp: decode_returndata_def)
  from assms(2) ne data len loop have
    res: "(if keeps_only_first (outputs abi) then list_get decoded 0 else Inr (PList decoded)) = Inr r"
    by (simp add: decode_returndata_def)
  have count: "length decoded = length (filter (\<lambda>t. type t \<noteq> ''felt*'') (outputs abi))"
    using decode_outputs_loop_length [OF loop]
      filter_zip_longest_next [of "\<lambda>t. type t \<noteq> ''felt*''" "outputs abi"]
    by simp
  have one: "decoded = [r]" if k: "keeps_only_first (outputs abi)"
  proof -
    from res k have g: "list_get decoded 0 = Inr r" by simp
    then have d0: "decoded \<noteq> []" and r0: "decoded ! 0 = r"
      by (auto simp: list_get_def split: if_splits)
    have "length (filter (\<lambda>t. type t \<noteq> ''felt*'') (outputs abi)) \<le> 1"
    proof (cases "length (outputs abi) = 1")
      case True
      have "length (filter (\<lambda>t. type t \<noteq> ''felt*'') (outputs abi)) \<le> length (outputs abi)"
        by (rule length_filter_le)
      with True show ?thesis by simp
    next
      case False
      with k have l2: "length (outputs abi) = 2" and t: "type (outputs abi ! 1) = ''felt*''"
        by (auto simp: keeps_only_first_def)
      from l2 obtain a b where ab: "outputs abi = [a, b]"
        by (cases "outputs abi"; cases "tl (outputs abi)") auto
      with t show ?thesis by simp
    qed
    with count d0 have "length decoded = 1" by (cases decoded) auto
    with r0 show ?thesis by (cases decoded) auto
  qed
  have many: "r = PList decoded" if "\<not> keeps_only_first (outputs abi)"
    using res that by simp
  from data loop one many show ?thesis
    unfolding keeps_only_first_def by blast
qed

text \<open>
  The theorem at a signature with one \<^verbatim>\<open>Uint256\<close> output and at one with two
  \<^verbatim>\<open>felt\<close> outputs.
\<close>

theorem decode_returndata_final_unwrap_witness:
  "1 < length [PInt 10, PInt 0]
   \<and> decode_returndata (returns [wide ''a'']) [PInt 10, PInt 0] = Inr (PTuple [PInt 10, PInt 0])
   \<and> (\<exists>data decoded rest.
         coerce_all [PInt 10, PInt 0] = Inr data
         \<and> decode_outputs_loop (zip_longest_next (outputs (returns [wide ''a'']))) data []
             = Inr (decoded, rest)
         \<and> decoded = [PTuple [PInt 10, PInt 0]])
   \<and> decode_returndata (returns [felt ''a'', felt ''b'']) [PInt 8, PInt 9]
       = Inr (PList [PInt 8, PInt 9])
   \<and> (\<exists>data decoded rest.
         coerce_all [PInt 8, PInt 9] = Inr data
         \<and> decode_outputs_loop (zip_longest_next (outputs (returns [felt ''a'', felt ''b'']))) data []
             = Inr (decoded, rest)
         \<and> PList [PInt 8, PInt 9] = PList decoded)"
proof -
  have l: "1 < length [PInt 10, PInt 0]" and m: "1 < length [PInt 8, PInt 9]" by simp_all
  have a: "decode_returndata (returns [wide ''a'']) [PInt 10, PInt 0] = Inr (PTuple [PInt 10, PInt 0])"
    by (simp add: decode_returndata_def returns_def wide_def keeps_only_first_def list_get_def)
  have c: "decode_returndata (returns [felt ''a'', felt ''b'']) [PInt 8, PInt 9]
       = Inr (PList [PInt 8, PInt 9])"
    by (simp add: decode_returndata_def returns_def felt_def keeps_only_first_def list_get_def)
  have k1: "length (outputs (returns [wide ''a''])) = 1" by (simp add: returns_def)
  have k2: "\<not> (length (outputs (returns [felt ''a'', felt ''b''])) = 1
       \<or> (length (outputs (returns [felt ''a'', felt ''b''])) = 2
           \<and> type (outputs (returns [felt ''a'', felt ''b'']) ! 1) = ''felt*''))"
    by (simp add: returns_def felt_def)
  from decode_returndata_final_unwrap [OF l a] k1
  have w1: "\<exists>data decoded rest.
         coerce_all [PInt 10, PInt 0] = Inr data
         \<and> decode_outputs_loop (zip_longest_next (outputs (returns [wide ''a'']))) data []
             = Inr (decoded, rest)
         \<and> decoded = [PTuple [PInt 10, PInt 0]]"
    by blast
  from decode_returndata_final_unwrap [OF m c] k2
  have w2: "\<exists>data decoded rest.
         coerce_all [PInt 8, PInt 9] = Inr data
         \<and> decode_outputs_loop (zip_longest_next (outputs (returns [felt ''a'', felt ''b'']))) data []
             = Inr (decoded, rest)
         \<and> PList [PInt 8, PInt 9] = PList decoded"
    by blast
  from l a w1 c w2 show ?thesis by blast
qed

section \<open>Wide integers\<close>

lemma item_offset_le: "item_offset tys i \<le> items_required tys"
proof -
  have "sum_list (map item_width tys) =
        sum_list (map item_width (take i tys)) + sum_list (map item_width (drop i tys))"
    by (simp flip: sum_list_append map_append)
  then show ?thesis by (simp add: item_offset_def items_required_def)
qed

lemma item_offset_Suc:
  "i < length tys \<Longrightarrow> item_offset tys (Suc i) = item_offset tys i + item_width (tys ! i)"
  by (simp add: item_offset_def take_Suc_conv_app_nth)

lemma zip_longest_next_nth:
  "i < length xs \<Longrightarrow> fst (zip_longest_next xs ! i) = xs ! i"
  using map_fst_zip_longest_next [of xs] length_zip_longest_next [of xs]
  by (metis nth_map)

lemma decode_outputs_loop_at_wide:
  assumes "i < length outs" and "type (outs ! i) = ''Uint256''"
  shows "decode_outputs_loop (zip_longest_next outs) it dec =
           (case decode_outputs_loop (take i (zip_longest_next outs)) it dec of
              Inl e \<Rightarrow> Inl e
            | Inr (dec', it') \<Rightarrow>
                (case it' of
                   lo # hi # it'' \<Rightarrow>
                     decode_outputs_loop (drop (Suc i) (zip_longest_next outs)) it''
                       (dec' @ [PTuple [lo, hi]])
                 | _ \<Rightarrow> Inl StopIteration))"
proof -
  let ?ps = "zip_longest_next outs"
  from assms(1) have i: "i < length ?ps" by (simp add: length_zip_longest_next)
  obtain cur nxt where p: "?ps ! i = (cur, nxt)" by (cases "?ps ! i")
  with assms have w: "type cur = ''Uint256''"
    using zip_longest_next_nth [OF assms(1)] by simp
  have "?ps = take i ?ps @ (cur, nxt) # drop (Suc i) ?ps"
    using id_take_nth_drop [OF i] p by simp
  then have "decode_outputs_loop ?ps it dec =
             decode_outputs_loop (take i ?ps @ (cur, nxt) # drop (Suc i) ?ps) it dec"
    by simp
  also have "\<dots> = (case decode_outputs_loop (take i ?ps) it dec of
              Inl e \<Rightarrow> Inl e
            | Inr (dec', it') \<Rightarrow>
                decode_outputs_loop ((cur, nxt) # drop (Suc i) ?ps) it' dec')"
    by (rule decode_outputs_loop_append)
  finally show ?thesis
    unfolding loop_wide [OF w] .
qed

text \<open>
  Claim C2. A \<^verbatim>\<open>Uint256\<close> field is decoded from exactly two consecutive raw
  elements, as the pair (low, high). In \<^verbatim>\<open>decode_items\<close>, the value of a \<^verbatim>\<open>Uint256\<close>
  input is the pair of the two elements at the input's offset, and the next input
  starts two elements later. In \<^verbatim>\<open>decode_returndata\<close>, wherever a \<^verbatim>\<open>Uint256\<close>
  output stands, the walk of the outputs before it leaves an iterator, the output
  takes the first two elements of that iterator as its pair, and the walk goes on
  behind them. With one \<^verbatim>\<open>Uint256\<close> named \<^verbatim>\<open>a\<close> over the data \<^verbatim>\<open>[10, 0]\<close>, \<^verbatim>\<open>a\<close> is
  \<^verbatim>\<open>(10, 0)\<close>; with a scalar \<^verbatim>\<open>a\<close> and a \<^verbatim>\<open>Uint256\<close> \<^verbatim>\<open>b\<close> over \<^verbatim>\<open>[5, 42, 1]\<close>, \<^verbatim>\<open>a\<close> is
  \<^verbatim>\<open>5\<close> and \<^verbatim>\<open>b\<close> is \<^verbatim>\<open>(42, 1)\<close>, in the return data and in the event arguments.
\<close>

theorem wide_integer_two_elements:
  "(i < length tys \<and> type (tys ! i) = ''Uint256'' \<and> decode_items tys data = Inr vals \<longrightarrow>
      vals ! i = PTuple [data ! item_offset tys i, data ! (item_offset tys i + 1)]
      \<and> item_offset tys i + 2 \<le> length data
      \<and> item_offset tys (Suc i) = item_offset tys i + 2)
   \<and> (j < length outs \<and> type (outs ! j) = ''Uint256'' \<longrightarrow>
      decode_outputs_loop (zip_longest_next outs) it dec =
        (case decode_outputs_loop (take j (zip_longest_next outs)) it dec of
           Inl e \<Rightarrow> Inl e
         | Inr (dec', it') \<Rightarrow>
             (case it' of
                lo # hi # it'' \<Rightarrow>
                  decode_outputs_loop (drop (Suc j) (zip_longest_next outs)) it''
                    (dec' @ [PTuple [lo, hi]])
              | _ \<Rightarrow> Inl StopIteration)))
   \<and> decode_returndata (returns [wide ''a'']) [PInt 10, PInt 0] = Inr (PTuple [PInt 10, PInt 0])
   \<and> decode_returndata (returns [felt ''a'', wide ''b'']) [PInt 5, PInt 42, PInt 1]
       = Inr (PList [PInt 5, PTuple [PInt 42, PInt 1]])
   \<and> map (\<lambda>l. cl_event_arguments l (Some ''a''))
        (fst (decode_logs sel (transfer_event [wide ''a''])
                [\<lparr>log_keys = [sel ''Transfer''], log_data = [PInt 10, PInt 0],
                  log_transaction_hash = h, log_block_hash = b, log_block_number = n\<rparr>]))
       = [Some (PTuple [PInt 10, PInt 0])]
   \<and> map (\<lambda>l. (cl_event_arguments l (Some ''a''), cl_event_arguments l (Some ''b'')))
        (fst (decode_logs sel (transfer_event [felt ''a'', wide ''b''])
                [\<lparr>log_keys = [sel ''Transfer''], log_data = [PInt 5, PInt 42, PInt 1],
                  log_transaction_hash = h, log_block_hash = b, log_block_number = n\<rparr>]))
       = [(Some (PInt 5), Some (PTuple [PInt 42, PInt 1]))]"
proof (intro conjI impI)
  assume a: "i < length tys \<and> type (tys ! i) = ''Uint256'' \<and> decode_items tys data = Inr vals"
  then have i: "i < length tys" and w: "type (tys ! i) = ''Uint256''" by simp_all
  from a have ok: "\<not> length data < items_required tys"
    and vals: "vals = map (item_at tys data) [0 ..< length tys]"
    by (auto simp: decode_items_eq split: if_splits)
  from vals i w show "vals ! i = PTuple [data ! item_offset tys i, data ! (item_offset tys i + 1)]"
    by (simp add: item_at_def)
  from i w show s: "item_offset tys (Suc i) = item_offset tys i + 2"
    by (simp add: item_offset_Suc item_width_def)
  from ok item_offset_le [of tys "Suc i"] s show "item_offset tys i + 2 \<le> length data"
    by simp
next
  assume "j < length outs \<and> type (outs ! j) = ''Uint256''"
  then show "decode_outputs_loop (zip_longest_next outs) it dec =
        (case decode_outputs_loop (take j (zip_longest_next outs)) it dec of
           Inl e \<Rightarrow> Inl e
         | Inr (dec', it') \<Rightarrow>
             (case it' of
                lo # hi # it'' \<Rightarrow>
                  decode_outputs_loop (drop (Suc j) (zip_longest_next outs)) it''
                    (dec' @ [PTuple [lo, hi]])
              | _ \<Rightarrow> Inl StopIteration))"
    by (simp add: decode_outputs_loop_at_wide)
next
  show "decode_returndata (returns [wide ''a'']) [PInt 10, PInt 0] = Inr (PTuple [PInt 10, PInt 0])"
    by (simp add: decode_returndata_def returns_def wide_def keeps_only_first_def list_get_def)
next
  show "decode_returndata (returns [felt ''a'', wide ''b'']) [PInt 5, PInt 42, PInt 1]
       = Inr (PList [PInt 5, PTuple [PInt 42, PInt 1]])"
    by (simp add: decode_returndata_def returns_def wide_def felt_def keeps_only_first_def
        list_get_def)
next
  show "map (\<lambda>l. cl_event_arguments l (Some ''a''))
        (fst (decode_logs sel (transfer_event [wide ''a''])
                [\<lparr>log_keys = [sel ''Transfer''], log_data = [PInt 10, PInt 0],
                  log_transaction_hash = h, log_block_hash = b, log_block_number = n\<rparr>]))
       = [Some (PTuple [PInt 10, PInt 0])]"
    by (simp add: decode_logs_def transfer_event_def wide_def decode_items_def dict_of_def)
next
  show "map (\<lambda>l. (cl_event_arguments l (Some ''a''), cl_event_arguments l (Some ''b'')))
        (fst (decode_logs sel (transfer_event [felt ''a'', wide ''b''])
                [\<lparr>log_keys = [sel ''Transfer''], log_data = [PInt 5, PInt 42, PInt 1],
                  log_transaction_hash = h, log_block_hash = b, log_block_number = n\<rparr>]))
       = [(Some (PInt 5), Some (PTuple [PInt 42, PInt 1]))]"
    by (simp add: decode_logs_def transfer_event_def wide_def felt_def decode_items_def dict_of_def)
qed


text \<open>
  The two general parts of the theorem at the inputs \<^verbatim>\<open>[a: felt, b: Uint256]\<close> over
  the data \<^verbatim>\<open>[5, 42, 1]\<close>.
\<close>

theorem wide_integer_two_elements_witness:
  "decode_items [felt ''a'', wide ''b''] [PInt 5, PInt 42, PInt 1]
     = Inr [PInt 5, PTuple [PInt 42, PInt 1]]
   \<and> [PInt 5, PTuple [PInt 42, PInt 1]] ! 1
       = PTuple [[PInt 5, PInt 42, PInt 1] ! item_offset [felt ''a'', wide ''b''] 1,
                 [PInt 5, PInt 42, PInt 1] ! (item_offset [felt ''a'', wide ''b''] 1 + 1)]
   \<and> item_offset [felt ''a'', wide ''b''] (Suc 1) = item_offset [felt ''a'', wide ''b''] 1 + 2
   \<and> decode_outputs_loop (zip_longest_next [felt ''a'', wide ''b''])
        [PInt 5, PInt 42, PInt 1] [] = Inr ([PInt 5, PTuple [PInt 42, PInt 1]], [])"
proof -
  have d: "decode_items [felt ''a'', wide ''b''] [PInt 5, PInt 42, PInt 1]
     = Inr [PInt 5, PTuple [PInt 42, PInt 1]]"
    by (simp add: decode_items_def felt_def wide_def)
  have l: "1 < length [felt ''a'', wide ''b'']" by simp
  have t: "type ([felt ''a'', wide ''b''] ! 1) = ''Uint256''" by (simp add: wide_def)
  have p: "decode_outputs_loop (take 1 (zip_longest_next [felt ''a'', wide ''b'']))
             [PInt 5, PInt 42, PInt 1] [] = Inr ([PInt 5], [PInt 42, PInt 1])"
    by (simp add: felt_def wide_def)
  have q: "drop (Suc 1) (zip_longest_next [felt ''a'', wide ''b'']) = []" by simp
  note w = wide_integer_two_elements
         [of 1 "[felt ''a'', wide ''b'']" "[PInt 5, PInt 42, PInt 1]"
             "[PInt 5, PTuple [PInt 42, PInt 1]]" 1 "[felt ''a'', wide ''b'']"
             "[PInt 5, PInt 42, PInt 1]" "[]"]
  from w l t d have v: "[PInt 5, PTuple [PInt 42, PInt 1]] ! 1
       = PTuple [[PInt 5, PInt 42, PInt 1] ! item_offset [felt ''a'', wide ''b''] 1,
                 [PInt 5, PInt 42, PInt 1] ! (item_offset [felt ''a'', wide ''b''] 1 + 1)]"
    and o: "item_offset [felt ''a'', wide ''b''] (Suc 1) = item_offset [felt ''a'', wide ''b''] 1 + 2"
    by blast+
  from w l t have "decode_outputs_loop (zip_longest_next [felt ''a'', wide ''b''])
        [PInt 5, PInt 42, PInt 1] [] =
        (case decode_outputs_loop (take 1 (zip_longest_next [felt ''a'', wide ''b'']))
                [PInt 5, PInt 42, PInt 1] [] of
           Inl e \<Rightarrow> Inl e
         | Inr (dec', it') \<Rightarrow>
             (case it' of
                lo # hi # it'' \<Rightarrow>
                  decode_outputs_loop (drop (Suc 1) (zip_longest_next [felt ''a'', wide ''b''])) it''
                    (dec' @ [PTuple [lo, hi]])
              | _ \<Rightarrow> Inl StopIteration))"
    by blast
  then have lp: "decode_outputs_loop (zip_longest_next [felt ''a'', wide ''b''])
        [PInt 5, PInt 42, PInt 1] [] = Inr ([PInt 5, PTuple [PInt 42, PInt 1]], [])"
    unfolding p q by simp
  from d v o lp show ?thesis by blast
qed

section \<open>Data shorter than the signature\<close>

text \<open>
  The generator \<^verbatim>\<open>decode_logs\<close> ends with \<^verbatim>\<open>RuntimeError\<close> exactly when a matching log
  has too few data elements.
\<close>

lemma decode_logs_loop_error:
  "snd (decode_logs_loop abi ils yielded) =
     (if \<exists>il \<in> set ils. length (log_data (snd il)) < items_required (event_inputs abi)
      then Some RuntimeError else None)"
proof (induction ils arbitrary: yielded)
  case Nil
  show ?case by simp
next
  case (Cons il ils)
  obtain index log where il: "il = (index, log)" by (cases il)
  show ?case
  proof (cases "length (log_data log) < items_required (event_inputs abi)")
    case True
    then show ?thesis by (simp add: il decode_items_eq)
  next
    case False
    then show ?thesis by (simp add: il decode_items_eq Cons.IH)
  qed
qed

lemma decode_logs_error:
  "snd (decode_logs sel abi raw_logs) =
     (if \<exists>log \<in> set raw_logs. sel (event_name abi) \<in> set (log_keys log)
            \<and> length (log_data log) < items_required (event_inputs abi)
      then Some RuntimeError else None)"
proof -
  define m where "m = filter (\<lambda>log. sel (event_name abi) \<in> set (log_keys log)) raw_logs"
  define P where "P = (\<lambda>log :: raw_log. length (log_data log) < items_required (event_inputs abi))"
  have z: "map snd (zip [0 ..< length m] m) = m" by (simp add: map_snd_zip)
  have "(\<exists>il \<in> set (zip [0 ..< length m] m). P (snd il))
        = (\<exists>log \<in> set (map snd (zip [0 ..< length m] m)). P log)"
    by (simp only: set_map bex_simps)
  also have "\<dots> = (\<exists>log \<in> set m. P log)" by (simp only: z)
  also have "\<dots> = (\<exists>log \<in> set raw_logs. sel (event_name abi) \<in> set (log_keys log) \<and> P log)"
    by (auto simp: m_def)
  finally have e: "(\<exists>il \<in> set (zip [0 ..< length m] m). P (snd il))
        = (\<exists>log \<in> set raw_logs. sel (event_name abi) \<in> set (log_keys log) \<and> P log)" .
  have "snd (decode_logs sel abi raw_logs) =
          (if \<exists>il \<in> set (zip [0 ..< length m] m). P (snd il) then Some RuntimeError else None)"
    unfolding decode_logs_def Let_def decode_logs_loop_error m_def P_def ..
  from this [unfolded e] show ?thesis unfolding P_def .
qed

lemma decode_returndata_ints:
  assumes "2 \<le> length xs"
  shows "decode_returndata abi (map PInt xs) =
           (case decode_outputs_loop (zip_longest_next (outputs abi)) (map PInt xs) [] of
              Inl e \<Rightarrow> Inl e
            | Inr (decoded, iter_data) \<Rightarrow>
                if keeps_only_first (outputs abi) then list_get decoded 0
                else Inr (PList decoded))"
proof -
  from assms have "map PInt xs \<noteq> []" and "length (map PInt xs) \<noteq> 1" by auto
  then show ?thesis
    by (simp add: decode_returndata_def coerce_all_ints)
qed

lemma list_get_error: "list_get xs i = Inl e \<Longrightarrow> e = IndexError"
  by (simp add: list_get_def split: if_splits)

text \<open>
  Claim C6 says that data shorter than the signature makes the decoders fail with
  \<^verbatim>\<open>MalformedReturnDataError\<close> and \<^verbatim>\<open>MalformedEventDataError\<close>. Neither is raised: on
  three elements for two \<^verbatim>\<open>Uint256\<close> outputs \<^verbatim>\<open>decode_returndata\<close> raises the
  \<^verbatim>\<open>StopIteration\<close> of the exhausted iterator, as \<^verbatim>\<open>decode_items\<close> does on one element
  for a \<^verbatim>\<open>Uint256\<close> input; and on a single raw element \<^verbatim>\<open>decode_returndata\<close> does not
  fail at all, although a \<^verbatim>\<open>Uint256\<close> output asks for two.
\<close>

theorem short_data_raises_stop_iteration:
  "decode_returndata (returns [wide ''a'', wide ''b'']) [PInt 1, PInt 2, PInt 3] = Inl StopIteration
   \<and> decode_returndata (returns [wide ''a'', wide ''b'']) [PInt 1, PInt 2, PInt 3]
       \<noteq> Inl (CustomError ''MalformedReturnDataError'')
   \<and> decode_items [wide ''a''] [PInt 1] = Inl StopIteration
   \<and> decode_items [wide ''a''] [PInt 1] \<noteq> Inl (CustomError ''MalformedEventDataError'')
   \<and> decode_returndata (returns [wide ''a'']) [PInt 5] = Inr (PInt 5)"
  by (simp add: decode_returndata_def returns_def wide_def decode_items_def list_get_def)

text \<open>
  Claim C6, amended. \<^verbatim>\<open>decode_items\<close> fails exactly when the data has fewer
  elements than its inputs take (two for a \<^verbatim>\<open>Uint256\<close>, one otherwise), and then
  with \<^verbatim>\<open>StopIteration\<close>; the generator \<^verbatim>\<open>decode_logs\<close> ends with an exception exactly
  when a matching log has too few elements, and then with \<^verbatim>\<open>RuntimeError\<close>. On raw
  data of two or more integers, \<^verbatim>\<open>decode_returndata\<close> raises \<^verbatim>\<open>StopIteration\<close> exactly
  when the data has fewer elements than the walk of the outputs asks for, and it
  raises nothing but \<^verbatim>\<open>StopIteration\<close> or the \<^verbatim>\<open>IndexError\<close> of the final unwrap.
\<close>

theorem short_data_errors:
  "(decode_items tys data = Inl e \<longleftrightarrow> e = StopIteration \<and> length data < items_required tys)
   \<and> (snd (decode_logs sel ev raw_logs) = Some e \<longleftrightarrow>
        e = RuntimeError
        \<and> (\<exists>log \<in> set raw_logs. sel (event_name ev) \<in> set (log_keys log)
              \<and> length (log_data log) < items_required (event_inputs ev)))
   \<and> (2 \<le> length xs \<longrightarrow>
        (decode_returndata abi (map PInt xs) = Inl StopIteration \<longleftrightarrow>
           length xs < outputs_required (zip_longest_next (outputs abi)) xs))
   \<and> (2 \<le> length xs \<and> decode_returndata abi (map PInt xs) = Inl e \<longrightarrow>
        e = StopIteration \<or> e = IndexError)"
proof (intro conjI impI)
  show "decode_items tys data = Inl e \<longleftrightarrow> e = StopIteration \<and> length data < items_required tys"
    by (auto simp: decode_items_eq)
next
  show "snd (decode_logs sel ev raw_logs) = Some e \<longleftrightarrow>
        e = RuntimeError
        \<and> (\<exists>log \<in> set raw_logs. sel (event_name ev) \<in> set (log_keys log)
              \<and> length (log_data log) < items_required (event_inputs ev))"
    unfolding decode_logs_error by auto
next
  assume l: "2 \<le> length xs"
  let ?L = "decode_outputs_loop (zip_longest_next (outputs abi)) (map PInt xs) []"
  note req = decode_outputs_loop_required [of xs "zip_longest_next (outputs abi)" "[]"]
  show "decode_returndata abi (map PInt xs) = Inl StopIteration \<longleftrightarrow>
           length xs < outputs_required (zip_longest_next (outputs abi)) xs"
  proof (cases "length xs < outputs_required (zip_longest_next (outputs abi)) xs")
    case True
    with req have "?L = Inl StopIteration" by simp
    with True show ?thesis by (simp add: decode_returndata_ints [OF l])
  next
    case False
    with req obtain decoded rest where "?L = Inr (decoded, rest)" by fastforce
    with False show ?thesis
      by (auto simp: decode_returndata_ints [OF l] dest: list_get_error)
  qed
next
  assume a: "2 \<le> length xs \<and> decode_returndata abi (map PInt xs) = Inl e"
  then have l: "2 \<le> length xs" and r: "decode_returndata abi (map PInt xs) = Inl e" by simp_all
  let ?L = "decode_outputs_loop (zip_longest_next (outputs abi)) (map PInt xs) []"
  note req = decode_outputs_loop_required [of xs "zip_longest_next (outputs abi)" "[]"]
  show "e = StopIteration \<or> e = IndexError"
  proof (cases "length xs < outputs_required (zip_longest_next (outputs abi)) xs")
    case True
    with req have "?L = Inl StopIteration" by simp
    with r show ?thesis by (simp add: decode_returndata_ints [OF l])
  next
    case False
    with req obtain decoded rest where "?L = Inr (decoded, rest)" by fastforce
    with r show ?thesis
      by (auto simp: decode_returndata_ints [OF l] split: if_splits dest: list_get_error)
  qed
qed


text \<open>
  The theorem at one element for a \<^verbatim>\<open>Uint256\<close> event input, at three elements for
  two \<^verbatim>\<open>Uint256\<close> outputs, and at a lone \<^verbatim>\<open>felt*\<close> output.
\<close>

theorem short_data_errors_witness:
  "length [PInt 1] < items_required [wide ''a'']
   \<and> decode_items [wide ''a''] [PInt 1] = Inl StopIteration
   \<and> snd (decode_logs (\<lambda>nm. 7) (transfer_event [wide ''a'']) [log_with [PInt 1]])
       = Some RuntimeError
   \<and> 2 \<le> length [1, 2, 3 :: int]
   \<and> length [1, 2, 3 :: int]
       < outputs_required (zip_longest_next (outputs (returns [wide ''a'', wide ''b''])))
           [1, 2, 3]
   \<and> decode_returndata (returns [wide ''a'', wide ''b'']) (map PInt [1, 2, 3]) = Inl StopIteration
   \<and> decode_returndata (returns [felt_array ''a'']) (map PInt [1, 2]) = Inl IndexError"
proof -
  have a: "length [PInt 1] < items_required [wide ''a'']"
    by (simp add: items_required_def item_width_def wide_def)
  have b: "\<exists>log \<in> set [log_with [PInt 1]].
             (\<lambda>nm. 7) (event_name (transfer_event [wide ''a''])) \<in> set (log_keys log)
             \<and> length (log_data log) < items_required (event_inputs (transfer_event [wide ''a'']))"
    by (simp add: log_with_def transfer_event_def items_required_def item_width_def wide_def)
  have c: "2 \<le> length [1, 2, 3 :: int]" by simp
  have d: "length [1, 2, 3 :: int]
             < outputs_required (zip_longest_next (outputs (returns [wide ''a'', wide ''b''])))
                 [1, 2, 3]"
    by (simp add: returns_def wide_def)
  have e: "decode_returndata (returns [felt_array ''a'']) (map PInt [1, 2]) = Inl IndexError"
    by (simp add: decode_returndata_def returns_def felt_array_def keeps_only_first_def
        list_get_def)
  have f: "2 \<le> length [1, 2 :: int]" by simp
  note w1 = short_data_errors
      [of "[wide ''a'']" "[PInt 1]" StopIteration "\<lambda>nm. 7" "transfer_event [wide ''a'']"
          "[log_with [PInt 1]]" "[1, 2, 3]" "returns [wide ''a'', wide ''b'']"]
  note w2 = short_data_errors
      [of "[wide ''a'']" "[PInt 1]" RuntimeError "\<lambda>nm. 7" "transfer_event [wide ''a'']"
          "[log_with [PInt 1]]" "[1, 2, 3]" "returns [wide ''a'', wide ''b'']"]
  note w3 = short_data_errors
      [of "[wide ''a'']" "[PInt 1]" IndexError "\<lambda>nm. 7" "transfer_event [wide ''a'']"
          "[log_with [PInt 1]]" "[1, 2]" "returns [felt_array ''a'']"]
  from w1 a have g: "decode_items [wide ''a''] [PInt 1] = Inl StopIteration" by blast
  from w2 b have h: "snd (decode_logs (\<lambda>nm. 7) (transfer_event [wide ''a''])
                       [log_with [PInt 1]]) = Some RuntimeError" by blast
  from w1 c d have i: "decode_returndata (returns [wide ''a'', wide ''b'']) (map PInt [1, 2, 3])
                         = Inl StopIteration" by blast
  from w3 f e have "IndexError = StopIteration \<or> IndexError = IndexError" by blast
  from a g h c d i e show ?thesis by blast
qed

section \<open>The calldata encoder\<close>

text \<open>
  The loop of \<^verbatim>\<open>encode_calldata\<close> reads \<^verbatim>\<open>call_args\<close> by index only below
  \<^verbatim>\<open>last_index + 1\<close>, so two argument lists that agree there give the same result.
\<close>

lemma is_arr_len_index: "is_arr_len all_inputs last_index index t \<Longrightarrow> int index < last_index"
  by (auto simp: is_arr_len_def split: option.splits if_splits)

lemma pre_encode_loop_args_cong:
  assumes "\<And>j. int j \<le> last_index \<Longrightarrow> list_get a1 j = list_get a2 j"
  shows "pre_encode_loop a1 ins last_index ps index did acc =
         pre_encode_loop a2 ins last_index ps index did acc"
proof (induction ps arbitrary: index did acc)
  case Nil
  show ?case by simp
next
  case (Cons p ps)
  obtain call_arg input_type where p: "p = (call_arg, input_type)" by (cases p)
  show ?case
  proof (cases "\<not> endswith (type input_type) ''*'' \<and> is_arr_len ins last_index index input_type")
    case True
    then have "int (index + 1) \<le> last_index" using is_arr_len_index by fastforce
    then have "list_get a1 (index + 1) = list_get a2 (index + 1)" by (rule assms)
    with True show ?thesis
      by (simp add: p Cons.IH split: sum.splits)
  next
    case False
    then show ?thesis
      by (auto simp: p Cons.IH split: sum.splits)
  qed
qed

lemma zip_take_length: "zip (take (length ys) xs) ys = zip xs ys"
proof (induction ys arbitrary: xs)
  case Nil
  show ?case by simp
next
  case (Cons y ys)
  then show ?case by (cases xs) simp_all
qed

lemma pre_encode_args_take:
  "pre_encode_args ins call_args = pre_encode_args ins (take (length ins) call_args)"
proof -
  let ?l = "int (min (length ins) (length call_args)) - 1"
  have m: "min (length ins) (length (take (length ins) call_args))
             = min (length ins) (length call_args)" by simp
  have "list_get call_args j = list_get (take (length ins) call_args) j" if "int j \<le> ?l" for j
    using that by (simp add: list_get_def)
  then have "pre_encode_loop call_args ins ?l (zip call_args ins) 0 False [] =
             pre_encode_loop (take (length ins) call_args) ins ?l (zip call_args ins) 0 False []"
    by (rule pre_encode_loop_args_cong)
  then show ?thesis
    unfolding pre_encode_args_def m zip_take_length .
qed

text \<open>
  Claim C10. Arguments beyond the inputs of the signature are ignored: the
  pre-encoded list, and with it the calldata of \<^verbatim>\<open>encode_calldata\<close>, is the same as
  for the first \<^verbatim>\<open>min(len(inputs), len(args))\<close> arguments alone. A surplus argument
  is not even coerced: one input with the arguments \<^verbatim>\<open>1, 2, "0xzz"\<close> pre-encodes to
  \<^verbatim>\<open>[1]\<close>.
\<close>

theorem surplus_arguments_ignored:
  "pre_encode_args (inputs abi) call_args =
     pre_encode_args (inputs abi) (take (min (length (inputs abi)) (length call_args)) call_args)
   \<and> encode_calldata transformer full_abi abi call_args =
     encode_calldata transformer full_abi abi
       (take (min (length (inputs abi)) (length call_args)) call_args)
   \<and> pre_encode_args [felt ''a''] [PInt 1, PInt 2, PStr ''0xzz''] = Inr [PInt 1]"
proof -
  have t: "take (min (length (inputs abi)) (length call_args)) call_args
             = take (length (inputs abi)) call_args"
    by (simp add: min_def)
  have a: "pre_encode_args (inputs abi) call_args =
     pre_encode_args (inputs abi) (take (min (length (inputs abi)) (length call_args)) call_args)"
    unfolding t by (rule pre_encode_args_take)
  have b: "encode_calldata transformer full_abi abi call_args =
     encode_calldata transformer full_abi abi
       (take (min (length (inputs abi)) (length call_args)) call_args)"
    unfolding encode_calldata_def a [symmetric] ..
  have c: "pre_encode_args [felt ''a''] [PInt 1, PInt 2, PStr ''0xzz''] = Inr [PInt 1]"
    by (simp add: pre_encode_args_def felt_def endswith_def is_arr_len_def)
  from a b c show ?thesis by blast
qed

text \<open>
  Claim C1. For the first length parameter of a signature the encoder does what
  the claim says: against \<^verbatim>\<open>(arr_len, arr*)\<close> the arguments \<^verbatim>\<open>n, [1, 2, 3]\<close> pre-encode to
  the array alone for every \<^verbatim>\<open>n\<close>, and a packer that prefixes arrays with their
  length gives \<^verbatim>\<open>[3, 1, 2, 3]\<close>. For a second length parameter it does not. The
  \<^verbatim>\<open>continue\<close> that skips the consumed array also skips \<^verbatim>\<open>index += 1\<close>, so from then on
  \<^verbatim>\<open>index\<close> is one behind the position, the test of \<^verbatim>\<open>inputs[index + 1]\<close> looks at the
  length parameter itself, and the length the caller gave is kept and its array
  encoded again after it: against \<^verbatim>\<open>(a_len, a*, b_len, b*)\<close> the arguments
  \<^verbatim>\<open>2, [1, 2], 1, [5]\<close> pre-encode to \<^verbatim>\<open>[[1, 2], 1, [5]]\<close>, and with \<^verbatim>\<open>9\<close> for the
  second length to \<^verbatim>\<open>[[1, 2], 9, [5]]\<close>.
\<close>

theorem second_array_length_kept:
  "pre_encode_args two_arrays [PInt 2, PList [PInt 1, PInt 2], PInt 1, PList [PInt 5]]
     = Inr [PList [PInt 1, PInt 2], PInt 1, PList [PInt 5]]
   \<and> pre_encode_args two_arrays [PInt 2, PList [PInt 1, PInt 2], PInt 9, PList [PInt 5]]
     = Inr [PList [PInt 1, PInt 2], PInt 9, PList [PInt 5]]
   \<and> pre_encode_args [felt ''arr_len'', felt_array ''arr''] [PInt n, PList [PInt 1, PInt 2, PInt 3]]
     = Inr [PList [PInt 1, PInt 2, PInt 3]]
   \<and> encode_calldata spec_transformer () (signature [felt ''arr_len'', felt_array ''arr''])
       [PInt n, PList [PInt 1, PInt 2, PInt 3]] = Inr [3, 1, 2, 3]"
  by (simp add: pre_encode_args_def two_arrays_def felt_def felt_array_def endswith_def
      is_arr_len_def list_get_def encode_calldata_def spec_transformer_def signature_def)

section \<open>Encoding and decoding again\<close>

text \<open>
  Against a signature without array types, integer arguments pre-encode to
  themselves; against outputs that are neither \<^verbatim>\<open>Uint256\<close> nor \<^verbatim>\<open>felt*\<close>, the walk
  of \<^verbatim>\<open>decode_returndata\<close> takes one element for each output.
\<close>

lemma is_arr_len_no_star:
  assumes "\<forall>t \<in> set ins. \<not> endswith (type t) ''*''" and "last_index \<le> int (length ins) - 1"
  shows "\<not> is_arr_len ins last_index index t"
proof
  assume a: "is_arr_len ins last_index index t"
  then have "int index < last_index"
    by (auto simp: is_arr_len_def split: option.splits if_splits)
  with assms(2) have "index + 1 < length ins" by simp
  then have "ins ! (index + 1) \<in> set ins" by (rule nth_mem)
  with assms(1) have "\<not> endswith (type (ins ! (index + 1))) ''*''" by blast
  with a show False
    by (auto simp: is_arr_len_def split: option.splits if_splits)
qed

lemma pre_encode_loop_ints:
  assumes "\<forall>t \<in> set ins. \<not> endswith (type t) ''*''" and "last_index \<le> int (length ins) - 1"
  shows "set ts \<subseteq> set ins \<Longrightarrow> length xs = length ts \<Longrightarrow>
         pre_encode_loop call_args ins last_index (zip (map PInt xs) ts) index did acc =
           Inr (acc @ map PInt xs)"
proof (induction xs arbitrary: ts index acc)
  case Nil
  then show ?case by simp
next
  case (Cons x xs)
  then obtain t ts' where ts: "ts = t # ts'" by (cases ts) auto
  with Cons.prems have t: "t \<in> set ins" and sub: "set ts' \<subseteq> set ins"
    and len: "length xs = length ts'" by auto
  from t assms(1) have ns: "\<not> endswith (type t) ''*''" by blast
  have na: "\<not> is_arr_len ins last_index index t"
    using assms by (rule is_arr_len_no_star)
  from ns na show ?case
    by (simp add: ts Cons.IH [OF sub len])
qed

lemma pre_encode_args_ints:
  assumes "\<forall>t \<in> set ins. \<not> endswith (type t) ''*''" and "length xs = length ins"
  shows "pre_encode_args ins (map PInt xs) = Inr (map PInt xs)"
  unfolding pre_encode_args_def
  using pre_encode_loop_ints [OF assms(1), of _ ins xs "map PInt xs" 0 False "[]"] assms(2)
  by simp

lemma zip_longest_next_set:
  "(c, n) \<in> set (zip_longest_next xs) \<Longrightarrow> c \<in> set xs \<and> (\<forall>m. n = Some m \<longrightarrow> m \<in> set xs)"
  by (induction xs rule: zip_longest_next.induct) auto

lemma decode_outputs_loop_scalars:
  assumes "\<forall>t \<in> set outs. type t \<noteq> ''Uint256'' \<and> type t \<noteq> ''felt*''"
  shows "(\<forall>p \<in> set ps. fst p \<in> set outs \<and> (\<forall>m. snd p = Some m \<longrightarrow> m \<in> set outs)) \<Longrightarrow>
         length data = length ps \<Longrightarrow>
         decode_outputs_loop ps data dec = Inr (dec @ data, [])"
proof (induction ps arbitrary: data dec)
  case Nil
  then show ?case by simp
next
  case (Cons p ps)
  obtain cur nxt where p: "p = (cur, nxt)" by (cases p)
  from Cons.prems(2) obtain x data' where d: "data = x # data'" by (cases data) auto
  from Cons.prems(1) p have c: "cur \<in> set outs" and n: "\<forall>m. nxt = Some m \<longrightarrow> m \<in> set outs"
    by auto
  from c assms have c1: "type cur \<noteq> ''Uint256''" and c2: "type cur \<noteq> ''felt*''" by auto
  from n assms have c3: "\<not> (case nxt of None \<Rightarrow> False | Some m \<Rightarrow> type m = ''felt*'')"
    by (cases nxt) auto
  have "decode_outputs_loop ps data' (dec @ [x]) = Inr ((dec @ [x]) @ data', [])"
    using Cons.prems d by (intro Cons.IH) auto
  with c1 c2 c3 show ?case by (simp add: p d)
qed

lemma no_star_not_felt_array: "\<not> endswith t ''*'' \<Longrightarrow> t \<noteq> ''felt*''"
  by (auto simp: endswith_def)

text \<open>
  Claim C5 says that decoding the encoding of \<open>v\<close> gives \<open>v\<close> again for every
  signature without wide integers and arrays. With the packer of the spec it does
  not: for a signature of one \<^verbatim>\<open>felt\<close> the arguments \<^verbatim>\<open>[7]\<close> come back as the bare
  \<^verbatim>\<open>7\<close>, and for a struct followed by a \<^verbatim>\<open>felt\<close> the arguments \<^verbatim>\<open>[{x: 1, y: 2}, 3]\<close>
  come back as \<^verbatim>\<open>[1, 2]\<close>, since \<^verbatim>\<open>decode_returndata\<close> reads one element for every
  output that is not a \<^verbatim>\<open>Uint256\<close>.
\<close>

theorem round_trip_fails:
  "round_trip spec_transformer () (signature [felt ''a'']) [PInt 7] = Inr (PInt 7)
   \<and> PInt 7 \<noteq> PList [PInt 7]
   \<and> round_trip spec_transformer ()
        (signature [\<lparr>name = Some ''p'', type = ''Point''\<rparr>, felt ''q''])
        [PDict [(''x'', PInt 1), (''y'', PInt 2)], PInt 3] = Inr (PList [PInt 1, PInt 2])
   \<and> PList [PInt 1, PInt 2] \<noteq> PList [PDict [(''x'', PInt 1), (''y'', PInt 2)], PInt 3]"
  by (simp add: round_trip_def encode_calldata_def spec_transformer_def signature_def felt_def
      pre_encode_args_def endswith_def is_arr_len_def decode_returndata_def list_get_def
      keeps_only_first_def)

text \<open>
  Claim C5, amended. Take a signature without wide integers and arrays, used for
  the inputs and for the outputs, as many integers \<open>xs\<close> as it has entries, and a
  transformer whose packer emits these integers as they are. Then decoding the
  encoding of \<open>xs\<close> gives the list \<open>xs\<close> again, unless \<open>xs\<close> has exactly one element:
  then it gives that element itself.
\<close>

theorem round_trip_felts:
  assumes "transformer full_abi abi = Inr from_python"
    and "from_python (map PInt xs) = Inr xs"
    and "outputs abi = inputs abi"
    and "length xs = length (inputs abi)"
    and "\<forall>t \<in> set (inputs abi). type t \<noteq> ''Uint256'' \<and> \<not> endswith (type t) ''*''"
  shows "round_trip transformer full_abi abi (map PInt xs) =
           (if length xs = 1 then Inr (PInt (hd xs)) else Inr (PList (map PInt xs)))"
proof -
  from assms(5) have ns: "\<forall>t \<in> set (inputs abi). \<not> endswith (type t) ''*''" by blast
  from assms(5) have sc: "\<forall>t \<in> set (inputs abi). type t \<noteq> ''Uint256'' \<and> type t \<noteq> ''felt*''"
    using no_star_not_felt_array by blast
  have enc: "encode_calldata transformer full_abi abi (map PInt xs) = Inr xs"
    by (simp add: encode_calldata_def assms(1,2) pre_encode_args_ints [OF ns assms(4)])
  have dec: "decode_returndata abi (map PInt xs) =
           (if length xs = 1 then Inr (PInt (hd xs)) else Inr (PList (map PInt xs)))"
  proof (cases "xs = []")
    case True
    then show ?thesis by (simp add: decode_returndata_def)
  next
    case ne: False
    show ?thesis
    proof (cases "length xs = 1")
      case True
      then obtain x where "xs = [x]" by (cases xs) auto
      then show ?thesis by (simp add: decode_returndata_def list_get_def)
    next
      case False
      have loop: "decode_outputs_loop (zip_longest_next (inputs abi)) (map PInt xs) []
                    = Inr ([] @ map PInt xs, [])"
        using sc
      proof (rule decode_outputs_loop_scalars)
        show "\<forall>p \<in> set (zip_longest_next (inputs abi)).
                fst p \<in> set (inputs abi) \<and> (\<forall>m. snd p = Some m \<longrightarrow> m \<in> set (inputs abi))"
          using zip_longest_next_set [of _ _ "inputs abi"] by auto
        show "length (map PInt xs) = length (zip_longest_next (inputs abi))"
          by (simp add: length_zip_longest_next assms(4))
      qed
      have k: "\<not> keeps_only_first (inputs abi)"
      proof
        assume "keeps_only_first (inputs abi)"
        with False assms(4) have l2: "length (inputs abi) = 2"
          and f: "type (inputs abi ! 1) = ''felt*''"
          by (auto simp: keeps_only_first_def)
        from l2 have "inputs abi ! 1 \<in> set (inputs abi)" by simp
        with sc f show False by blast
      qed
      from ne False loop k show ?thesis
        by (simp add: decode_returndata_def coerce_all_ints assms(3))
    qed
  qed
  show ?thesis by (simp add: round_trip_def enc dec)
qed

text \<open>
  The theorem with the packer of the spec, at two \<^verbatim>\<open>felt\<close> entries and at one.
\<close>

theorem round_trip_felts_witness:
  "round_trip spec_transformer () (signature [felt ''a'', felt ''b'']) (map PInt [1, 2])
     = Inr (PList (map PInt [1, 2]))
   \<and> round_trip spec_transformer () (signature [felt ''a'']) (map PInt [7]) = Inr (PInt 7)
   \<and> pack_args (payload_inputs (inputs (signature [felt ''a'', felt ''b''])))
        (map PInt [1, 2]) = Inr [1, 2]"
proof -
  have t: "spec_transformer () (signature [felt ''a'', felt ''b''])
             = Inr (pack_args (payload_inputs (inputs (signature [felt ''a'', felt ''b'']))))"
    by (simp add: spec_transformer_def)
  have p: "pack_args (payload_inputs (inputs (signature [felt ''a'', felt ''b''])))
             (map PInt [1, 2]) = Inr [1, 2]"
    by (simp add: signature_def felt_def endswith_def)
  have o: "outputs (signature [felt ''a'', felt ''b'']) = inputs (signature [felt ''a'', felt ''b''])"
    by (simp add: signature_def)
  have l: "length [1, 2 :: int] = length (inputs (signature [felt ''a'', felt ''b'']))"
    by (simp add: signature_def)
  have n: "\<forall>t \<in> set (inputs (signature [felt ''a'', felt ''b''])).
             type t \<noteq> ''Uint256'' \<and> \<not> endswith (type t) ''*''"
    by (simp add: signature_def felt_def endswith_def)
  have t1: "spec_transformer () (signature [felt ''a''])
             = Inr (pack_args (payload_inputs (inputs (signature [felt ''a'']))))"
    by (simp add: spec_transformer_def)
  have p1: "pack_args (payload_inputs (inputs (signature [felt ''a'']))) (map PInt [7]) = Inr [7]"
    by (simp add: signature_def felt_def)
  have o1: "outputs (signature [felt ''a'']) = inputs (signature [felt ''a''])"
    by (simp add: signature_def)
  have l1: "length [7 :: int] = length (inputs (signature [felt ''a'']))"
    by (simp add: signature_def)
  have n1: "\<forall>t \<in> set (inputs (signature [felt ''a''])).
             type t \<noteq> ''Uint256'' \<and> \<not> endswith (type t) ''*''"
    by (simp add: signature_def felt_def endswith_def)
  from round_trip_felts
         [of spec_transformer "()" "signature [felt ''a'', felt ''b'']"
             "pack_args (payload_inputs (inputs (signature [felt ''a'', felt ''b''])))"
             "[1, 2]", OF t p o l n]
       round_trip_felts
         [of spec_transformer "()" "signature [felt ''a'']"
             "pack_args (payload_inputs (inputs (signature [felt ''a''])))" "[7]",
          OF t1 p1 o1 l1 n1]
       p
  show ?thesis by simp
qed
end
